theory Spec2Isabelle
  imports Main
begin

section \<open>JavaScript values and operators used by server.js\<close>

text \<open>
  Numbers are modelled as \<open>int\<close>. The model covers the integers that JavaScript's doubles
  represent exactly (magnitude below \<open>2^53\<close>): on them the operators \<open><\<close>, \<open>>=\<close>, \<open>>\<close>,
  \<open>-\<close>, \<open>*\<close> and \<open>Math.floor(x / 1000)\<close> of the source agree with integer arithmetic.
  Fractional JSON numbers and larger magnitudes are outside the model.

  The field \<open>animalData.value\<close> is never validated by the server and is stored as it
  arrives (line 54), so the model keeps the JSON values apart by what the operators of
  the source do with them:
  \<^item> \<open>Undefined\<close>: the field is missing;
  \<^item> \<open>Num n\<close>: a number (\<open>null\<close> and \<open>false\<close> are read as 0 and \<open>true\<close> as 1 by every
    operator used here, and are represented by these numbers);
  \<^item> \<open>Str s n\<close>: a string \<open>s\<close>, or an array or object whose primitive value is the
    string \<open>s\<close> (\<open>[object Object]\<close> for an object). The grammar of numeric strings
    belongs to the language and not to the program, so the value carries the result \<open>n\<close>
    of the language's \<open>ToNumber\<close> on \<open>s\<close>: \<open>Str ''5000000'' (Some 5000000)\<close> and
    \<open>Str ''abc'' None\<close>, where \<open>None\<close> is NaN.
\<close>

datatype jsval = Undefined | Num int | Str string "int option"

text \<open>\<open>ToNumber\<close> of the language; \<open>None\<close> is NaN.\<close>

fun ToNumber :: "jsval \<Rightarrow> int option" where
  "ToNumber Undefined = None"
| "ToNumber (Num n) = Some n"
| "ToNumber (Str s n) = n"

text \<open>
  Two strings are compared by their code units: a proper prefix is smaller, otherwise
  the first position where they differ decides.
\<close>

fun string_lt :: "string \<Rightarrow> string \<Rightarrow> bool" where
  "string_lt [] [] = False"
| "string_lt [] (y # ys) = True"
| "string_lt (x # xs) [] = False"
| "string_lt (x # xs) (y # ys) =
     (if x = y then string_lt xs ys else (of_char x :: nat) < of_char y)"

text \<open>
  The abstract relational comparison of the language. When both operands are strings
  the strings are compared; otherwise both are converted with \<open>ToNumber\<close>, and the
  result is undefined (\<open>None\<close>) as soon as one of them is NaN.
\<close>

fun IsLessThan :: "jsval \<Rightarrow> jsval \<Rightarrow> bool option" where
  "IsLessThan (Str s n) (Str t m) = Some (string_lt s t)"
| "IsLessThan x y =
     (case (ToNumber x, ToNumber y) of
        (Some nx, Some ny) \<Rightarrow> Some (nx < ny)
      | _ \<Rightarrow> None)"

text \<open>
  \<open>a < b\<close>, \<open>a >= b\<close> and \<open>a > b\<close>: an undefined comparison makes each of them false. The
  subtraction converts both operands with \<open>ToNumber\<close> always, and is NaN when one of
  them is.
\<close>

definition js_lt :: "jsval \<Rightarrow> jsval \<Rightarrow> bool" where
  "js_lt a b = (IsLessThan a b = Some True)"

definition js_ge :: "jsval \<Rightarrow> jsval \<Rightarrow> bool" where
  "js_ge a b = (IsLessThan a b = Some False)"

definition js_gt :: "jsval \<Rightarrow> jsval \<Rightarrow> bool" where
  "js_gt a b = (IsLessThan b a = Some True)"

definition js_sub :: "jsval \<Rightarrow> jsval \<Rightarrow> int option" where
  "js_sub a b = (case (ToNumber a, ToNumber b) of (Some x, Some y) \<Rightarrow> Some (x - y) | _ \<Rightarrow> None)"

section \<open>The data model\<close>

text \<open>
  \<open>animalData\<close> as the server copies it (lines 52-57): four fields, each possibly
  missing. The field \<open>value\<close> of the source is \<open>avalue\<close> here.
\<close>

record animal =
  displayName :: "string option"
  avalue :: jsval
  generation :: "string option"
  rarity :: "string option"

text \<open>
  The JSON body of \<open>POST /api/report\<close>, typed as the wire contract has it: two strings,
  an object, integer seconds and a string, each of which may be absent (\<open>None\<close>). A
  string is falsy when it is absent or empty, a number when it is absent or 0. For
  \<open>animalData\<close>, \<open>None\<close> stands for every falsy value (absent, \<open>null\<close>); an object, even
  one without fields, is truthy, and its missing fields read as \<open>undefined\<close>.
\<close>

record body =
  req_placeId :: "string option"
  req_gameInstanceId :: "string option"
  req_animalData :: "animal option"
  req_timestamp :: "int option"
  req_source :: "string option"

text \<open>\<open>instanceData\<close> (lines 49-61), the value stored in the map.\<close>

record instance_data =
  placeId :: string
  gameInstanceId :: string
  animalData :: animal
  timestamp :: int
  source :: string
  lastUpdated :: int

text \<open>
  \<open>gameInstances\<close> is a JavaScript \<open>Map\<close>: its entries are kept in insertion order and
  its keys are unique. It is modelled by the list of its entries in iteration order.
  \<open>set\<close> on a key that is present replaces the value where it stands, otherwise it
  appends; \<open>delete\<close> removes the entry of the key; \<open>size\<close> is the length.
\<close>

type_synonym cache = "(string \<times> instance_data) list"

definition MAX_STORED_INSTANCES :: nat where
  "MAX_STORED_INSTANCES = 100"

definition INSTANCE_TTL :: int where
  "INSTANCE_TTL = 3600000"

fun map_set :: "string \<Rightarrow> instance_data \<Rightarrow> cache \<Rightarrow> cache" where
  "map_set k v [] = [(k, v)]"
| "map_set k v ((k', v') # m) =
     (if k' = k then (k, v) # m else (k', v') # map_set k v m)"

fun map_delete :: "string \<Rightarrow> cache \<Rightarrow> cache" where
  "map_delete k [] = []"
| "map_delete k ((k', v') # m) = (if k' = k then m else (k', v') # map_delete k m)"

fun map_get :: "cache \<Rightarrow> string \<Rightarrow> instance_data option" where
  "map_get [] k = None"
| "map_get ((k', v') # m) k = (if k' = k then Some v' else map_get m k)"

definition map_values :: "cache \<Rightarrow> instance_data list" where
  "map_values m = map snd m"

section \<open>POST /api/report\<close>

text \<open>The three responses of the handler (the status and the message of each).\<close>

datatype response =
    MissingFields   \<comment> \<open>400, success false, "Missing required fields"\<close>
  | ValueTooLow     \<comment> \<open>200, success true, "Value too low, not stored"\<close>
  | Stored string   \<comment> \<open>200, success true, "Instance stored successfully", instanceId\<close>

text \<open>Line 46: the key is the template string of the two identifiers.\<close>

definition instance_key :: "string \<Rightarrow> string \<Rightarrow> string" where
  "instance_key pid gid = pid @ ''_'' @ gid"

text \<open>
  Lines 49-61. \<open>now\<close> is the reading of \<open>Date.now()\<close>; the object literal reads the clock
  twice in a row, and the model takes both readings to be the same millisecond.
\<close>

definition make_instance :: "int \<Rightarrow> string \<Rightarrow> string \<Rightarrow> animal \<Rightarrow> body \<Rightarrow> instance_data" where
  "make_instance now pid gid a b =
     \<lparr> placeId = pid,
       gameInstanceId = gid,
       animalData = \<lparr> displayName = displayName a, avalue = avalue a,
                      generation = generation a, rarity = rarity a \<rparr>,
       timestamp = (case req_timestamp b of
                      None \<Rightarrow> now div 1000
                    | Some t \<Rightarrow> if t = 0 then now div 1000 else t),
       source = (case req_source b of
                   None \<Rightarrow> ''unknown''
                 | Some s \<Rightarrow> if s = [] then ''unknown'' else s),
       lastUpdated = now \<rparr>"

text \<open>
  Lines 26-78. With a JSON body none of the statements in the \<open>try\<close> block throws, so
  the \<open>catch\<close> branch (status 500) is not a branch of the model.
\<close>

definition report :: "int \<Rightarrow> body \<Rightarrow> cache \<Rightarrow> response \<times> cache" where
  "report now b c =
     (case (req_placeId b, req_gameInstanceId b, req_animalData b) of
        (Some pid, Some gid, Some a) \<Rightarrow>
          if pid = [] \<or> gid = [] then (MissingFields, c)
          else if js_lt (avalue a) (Num 3000000) then (ValueTooLow, c)
          else
            let key = instance_key pid gid;
                c1 = map_set key (make_instance now pid gid a b) c;
                c2 = (if length c1 > MAX_STORED_INSTANCES
                      then (case c1 of [] \<Rightarrow> c1 | (firstKey, _) # _ \<Rightarrow> map_delete firstKey c1)
                      else c1)
            in (Stored key, c2)
      | _ \<Rightarrow> (MissingFields, c))"

section \<open>The sweep\<close>

text \<open>
  Lines 16-23. The loop walks the entries of the map and deletes the current one when
  the test holds; deleting the entry just visited does not disturb the iteration of a
  \<open>Map\<close>, so the loop is a recursion over the entries as they stood at the start.
\<close>

fun sweep_loop :: "int \<Rightarrow> (string \<times> instance_data) list \<Rightarrow> cache \<Rightarrow> cache" where
  "sweep_loop now [] c = c"
| "sweep_loop now ((key, d) # es) c =
     (if now - timestamp d * 1000 > INSTANCE_TTL
      then sweep_loop now es (map_delete key c)
      else sweep_loop now es c)"

definition sweep :: "int \<Rightarrow> cache \<Rightarrow> cache" where
  "sweep now c = sweep_loop now c c"

section \<open>DELETE /api/instance/:gameInstanceId\<close>

text \<open>Lines 183-199: the first entry with the given instance id is deleted.\<close>

fun delete_loop :: "string \<Rightarrow> (string \<times> instance_data) list \<Rightarrow> cache \<Rightarrow> bool \<times> cache" where
  "delete_loop gid [] c = (False, c)"
| "delete_loop gid ((key, i) # es) c =
     (if gameInstanceId i = gid then (True, map_delete key c) else delete_loop gid es c)"

definition delete_instance :: "string \<Rightarrow> cache \<Rightarrow> bool \<times> cache" where
  "delete_instance gid c = delete_loop gid c c"

section \<open>The states the server can be in\<close>

text \<open>
  The map starts empty (line 11) and is changed by the three operations above only,
  each of which runs to completion before the next starts.
\<close>

datatype operation = Report int body | Sweep int | Delete string

fun step :: "cache \<Rightarrow> operation \<Rightarrow> cache" where
  "step c (Report now b) = snd (report now b c)"
| "step c (Sweep now) = sweep now c"
| "step c (Delete gid) = snd (delete_instance gid c)"

definition run :: "operation list \<Rightarrow> cache" where
  "run ops = foldl step [] ops"

section \<open>GET /api/instances\<close>

text \<open>
  \<open>parseInt\<close> with no radix, on the bytes of an ASCII string: leading white space is
  skipped, a sign is read, the prefix \<open>0x\<close> or \<open>0X\<close> selects radix 16, and the longest
  run of digits of the radix is the number; with no digit the result is NaN (\<open>None\<close>).
  What follows the digits is ignored.
\<close>

definition StrWhiteSpaceChar :: "char \<Rightarrow> bool" where
  "StrWhiteSpaceChar ch =
     (ch = CHR '' '' \<or> ch = CHR 0x09 \<or> ch = CHR 0x0A \<or> ch = CHR 0x0B \<or> ch = CHR 0x0C
      \<or> ch = CHR 0x0D)"

definition digit_value :: "char \<Rightarrow> nat option" where
  "digit_value ch =
     (let n = (of_char ch :: nat) in
      if 48 \<le> n \<and> n \<le> 57 then Some (n - 48)
      else if 97 \<le> n \<and> n \<le> 122 then Some (n - 87)
      else if 65 \<le> n \<and> n \<le> 90 then Some (n - 55)
      else None)"

definition radix_digit :: "nat \<Rightarrow> char \<Rightarrow> bool" where
  "radix_digit R ch = (case digit_value ch of None \<Rightarrow> False | Some d \<Rightarrow> d < R)"

definition digits_value :: "nat \<Rightarrow> string \<Rightarrow> nat" where
  "digits_value R Z =
     foldl (\<lambda>acc ch. acc * R + (case digit_value ch of None \<Rightarrow> 0 | Some d \<Rightarrow> d)) 0 Z"

definition parseInt :: "string \<Rightarrow> int option" where
  "parseInt inputString =
     (let S = dropWhile StrWhiteSpaceChar inputString;
          sign = (case S of [] \<Rightarrow> 1 | ch # _ \<Rightarrow> if ch = CHR ''-'' then - 1 else (1 :: int));
          S1 = (case S of [] \<Rightarrow> S
                | ch # rest \<Rightarrow> if ch = CHR ''+'' \<or> ch = CHR ''-'' then rest else S);
          hex = (take 2 S1 = ''0x'' \<or> take 2 S1 = ''0X'');
          R = (if hex then 16 else 10);
          S2 = (if hex then drop 2 S1 else S1);
          Z = takeWhile (radix_digit R) S2
      in if Z = [] then None else Some (sign * int (digits_value R Z)))"

text \<open>
  Lines 91-92: \<open>parseInt(req.query.p) || d\<close>. A parameter that is not in the query string
  is \<open>undefined\<close>, which \<open>parseInt\<close> reads as the string "undefined". NaN and 0 are falsy.
\<close>

definition query_param :: "string option \<Rightarrow> int \<Rightarrow> int" where
  "query_param p d =
     (case parseInt (case p of None \<Rightarrow> ''undefined'' | Some s \<Rightarrow> s) of
        None \<Rightarrow> d
      | Some n \<Rightarrow> if n = 0 then d else n)"

text \<open>
  Line 97: the comparator \<open>(a, b) => b.animalData.value - a.animalData.value\<close>; \<open>sort\<close>
  reads a NaN result as 0.
\<close>

definition compare_value :: "instance_data \<Rightarrow> instance_data \<Rightarrow> int" where
  "compare_value a b =
     (case js_sub (avalue (animalData b)) (avalue (animalData a)) of None \<Rightarrow> 0 | Some d \<Rightarrow> d)"

text \<open>
  \<open>Array.prototype.sort\<close> is stable, so with a consistent comparator its result is the
  one stable sorted arrangement of the array, which insertion from the right computes.
  After the filter of line 96 every value has a number under \<open>ToNumber\<close> and the
  comparator is consistent.
\<close>

fun insert_sorted :: "instance_data \<Rightarrow> instance_data list \<Rightarrow> instance_data list" where
  "insert_sorted x [] = [x]"
| "insert_sorted x (y # ys) =
     (if compare_value x y \<le> 0 then x # y # ys else y # insert_sorted x ys)"

definition array_sort :: "instance_data list \<Rightarrow> instance_data list" where
  "array_sort xs = foldr insert_sorted xs []"

text \<open>
  \<open>slice(0, end)\<close>: a negative \<open>end\<close> counts from the end of the array.
\<close>

definition slice0 :: "int \<Rightarrow> 'a list \<Rightarrow> 'a list" where
  "slice0 e xs =
     (if e < 0 then take (nat (int (length xs) + e)) xs else take (nat e) xs)"

text \<open>Lines 95-98.\<close>

definition instances :: "int \<Rightarrow> int \<Rightarrow> cache \<Rightarrow> instance_data list" where
  "instances minValue limit c =
     slice0 limit
       (array_sort
          (filter (\<lambda>i. js_ge (avalue (animalData i)) (Num minValue)) (map_values c)))"

text \<open>
  The object sent for an instance (lines 103-114 and 150-161); \<open>age\<close> is in seconds.
\<close>

record instance_view =
  res_placeId :: string
  res_gameInstanceId :: string
  res_name :: "string option"
  res_value :: jsval
  res_generation :: "string option"
  res_rarity :: "string option"
  res_timestamp :: int
  res_age :: int

definition project :: "int \<Rightarrow> instance_data \<Rightarrow> instance_view" where
  "project now inst =
     \<lparr> res_placeId = placeId inst,
       res_gameInstanceId = gameInstanceId inst,
       res_name = displayName (animalData inst),
       res_value = avalue (animalData inst),
       res_generation = generation (animalData inst),
       res_rarity = rarity (animalData inst),
       res_timestamp = timestamp inst,
       res_age = (now - lastUpdated inst) div 1000 \<rparr>"

text \<open>
  Lines 89-115: the handler, from the two query parameters as the caller wrote them
  (\<open>None\<close> when the parameter is omitted) to the list \<open>instances\<close> of the response.
\<close>

definition query :: "string option \<Rightarrow> string option \<Rightarrow> int \<Rightarrow> cache \<Rightarrow> instance_view list" where
  "query qMinValue qLimit now c =
     (let minValue = query_param qMinValue 3000000;
          limit = query_param qLimit 50
      in map (project now) (instances minValue limit c))"

section \<open>GET /api/best\<close>

text \<open>
  Lines 141-146: the scan, with its two variables. \<open>bestValue\<close> starts as the number 0
  and is then assigned the stored value as it is (line 143), so that once it holds a
  string the next string is compared with it as a string.
\<close>

fun best_loop :: "instance_data list \<Rightarrow> instance_data option \<Rightarrow> jsval \<Rightarrow> instance_data option" where
  "best_loop [] bestInstance bestValue = bestInstance"
| "best_loop (inst # rest) bestInstance bestValue =
     (if js_gt (avalue (animalData inst)) bestValue
      then best_loop rest (Some inst) (avalue (animalData inst))
      else best_loop rest bestInstance bestValue)"

text \<open>Lines 129-146: \<open>None\<close> is the \<open>null\<close> of the response.\<close>

definition best_instance :: "cache \<Rightarrow> instance_data option" where
  "best_instance c =
     (if length c = 0 then None else best_loop (map_values c) None (Num 0))"

definition best :: "int \<Rightarrow> cache \<Rightarrow> instance_view option" where
  "best now c = map_option (project now) (best_instance c)"

section \<open>Auxiliary definitions of the proofs\<close>

text \<open>
  The well-formedness of the map that every operation keeps: the keys are unique, as in
  any \<open>Map\<close>, and the size is within the bound.
\<close>

definition wf_cache :: "cache \<Rightarrow> bool" where
  "wf_cache c = (distinct (map fst c) \<and> length c \<le> MAX_STORED_INSTANCES)"

text \<open>Lines 66-69 as a function of the map after \<open>set\<close>.\<close>

definition evict :: "cache \<Rightarrow> cache" where
  "evict c1 = (if length c1 > MAX_STORED_INSTANCES then tl c1 else c1)"

text \<open>
  The order of two values by their numbers: both have one, and the first is not below
  the second.
\<close>

definition number_ge :: "jsval \<Rightarrow> jsval \<Rightarrow> bool" where
  "number_ge x y =
     (case (ToNumber x, ToNumber y) of (Some v, Some w) \<Rightarrow> w \<le> v | _ \<Rightarrow> False)"

text \<open>
  What line 39 lets through: no stored value is a number below the threshold.
\<close>

definition values_admitted :: "cache \<Rightarrow> bool" where
  "values_admitted c = (\<forall>e \<in> set c. \<not> js_lt (avalue (animalData (snd e))) (Num 3000000))"

text \<open>
  The report of the specification's example, two reports of a higher, equal value, and
  reports that fill the map.
\<close>

definition dog :: animal where
  "dog = \<lparr> displayName = Some ''Dog'', avalue = Num 5000000, generation = Some ''G1'',
           rarity = Some ''rare'' \<rparr>"

definition dog_report :: body where
  "dog_report = \<lparr> req_placeId = Some ''P1'', req_gameInstanceId = Some ''I1'',
                  req_animalData = Some dog, req_timestamp = None, req_source = None \<rparr>"

definition fill_report :: "nat \<Rightarrow> operation" where
  "fill_report n =
     Report (int n) (dog_report\<lparr>req_gameInstanceId := Some (replicate (Suc n) CHR ''i'')\<rparr>)"

definition fill_entry :: "nat \<Rightarrow> string \<times> instance_data" where
  "fill_entry n =
     (instance_key ''P1'' (replicate (Suc n) CHR ''i''),
      make_instance (int n) ''P1'' (replicate (Suc n) CHR ''i'') dog
        (dog_report\<lparr>req_gameInstanceId := Some (replicate (Suc n) CHR ''i'')\<rparr>))"

definition cat_report :: body where
  "cat_report = \<lparr> req_placeId = Some ''P1'', req_gameInstanceId = Some ''I2'',
                  req_animalData = Some (dog\<lparr>displayName := Some ''Cat'', avalue := Num 7000000\<rparr>),
                  req_timestamp = Some 5, req_source = Some ''script'' \<rparr>"

definition fox_report :: body where
  "fox_report = \<lparr> req_placeId = Some ''P1'', req_gameInstanceId = Some ''I3'',
                  req_animalData = Some (dog\<lparr>displayName := Some ''Fox'', avalue := Num 7000000\<rparr>),
                  req_timestamp = None, req_source = None \<rparr>"

definition three_reports :: "operation list" where
  "three_reports = [Report 1000 dog_report, Report 2000 cat_report, Report 3000 fox_report]"

section \<open>The map operations and the invariant\<close>


lemma keys_map_set:
  "map fst (map_set k v c) = (if k \<in> set (map fst c) then map fst c else map fst c @ [k])"
  by (induction c) force+

lemma length_map_set:
  "length (map_set k v c) = (if k \<in> set (map fst c) then length c else Suc (length c))"
  by (induction c) force+

lemma map_set_new: "k \<notin> set (map fst c) \<Longrightarrow> map_set k v c = c @ [(k, v)]"
  by (induction c) auto

lemma distinct_map_set: "distinct (map fst c) \<Longrightarrow> distinct (map fst (map_set k v c))"
  by (simp add: keys_map_set)

lemma map_get_map_set: "map_get (map_set k v c) k' = (if k' = k then Some v else map_get c k')"
  by (induction c) auto

lemma map_get_None: "map_get c k = None \<longleftrightarrow> k \<notin> set (map fst c)"
  by (induction c) force+

lemma map_get_Some: "distinct (map fst c) \<Longrightarrow> map_get c k = Some v \<longleftrightarrow> (k, v) \<in> set c"
  by (induction c) force+

lemma map_delete_filter:
  "distinct (map fst c) \<Longrightarrow> map_delete k c = filter (\<lambda>e. fst e \<noteq> k) c"
proof (induction c)
  case Nil
  then show ?case by simp
next
  case (Cons e c)
  obtain k' v' where e: "e = (k', v')" by (cases e)
  from Cons.prems e have "k' \<notin> fst ` set c" by simp
  then have "filter (\<lambda>e. fst e \<noteq> k') c = c"
    by (intro filter_True) auto
  with Cons e show ?case by auto
qed

lemma length_map_delete: "length (map_delete k c) \<le> length c"
  by (induction c) auto

lemma distinct_map_delete: "distinct (map fst c) \<Longrightarrow> distinct (map fst (map_delete k c))"
  by (simp add: map_delete_filter distinct_map_filter)

lemma wf_map_delete: "wf_cache c \<Longrightarrow> wf_cache (map_delete k c)"
  using length_map_delete [of k c] by (simp add: wf_cache_def distinct_map_delete)

lemma sweep_loop_filter:
  "distinct (map fst c) \<Longrightarrow>
   sweep_loop now es c =
     filter (\<lambda>e. fst e \<notin> fst ` {x \<in> set es. now - timestamp (snd x) * 1000 > INSTANCE_TTL}) c"
proof (induction es arbitrary: c)
  case Nil
  then show ?case by simp
next
  case (Cons x es)
  obtain key d where x: "x = (key, d)" by (cases x)
  show ?case
  proof (cases "now - timestamp d * 1000 > INSTANCE_TTL")
    case True
    have img: "fst ` {y \<in> set (x # es). now - timestamp (snd y) * 1000 > INSTANCE_TTL}
               = insert key (fst ` {y \<in> set es. now - timestamp (snd y) * 1000 > INSTANCE_TTL})"
      using True x by force
    have "sweep_loop now (x # es) c = sweep_loop now es (map_delete key c)"
      using True x by simp
    also have "\<dots> = filter (\<lambda>e. fst e \<notin> fst ` {x \<in> set es. now - timestamp (snd x) * 1000 > INSTANCE_TTL})
                        (filter (\<lambda>e. fst e \<noteq> key) c)"
      using Cons.IH [OF distinct_map_delete [OF Cons.prems]] Cons.prems
      by (simp add: map_delete_filter)
    also have "\<dots> = filter (\<lambda>e. fst e \<notin> fst ` {y \<in> set (x # es). now - timestamp (snd y) * 1000 > INSTANCE_TTL}) c"
      unfolding img by (auto intro: filter_cong)
    finally show ?thesis .
  next
    case False
    have img: "fst ` {y \<in> set (x # es). now - timestamp (snd y) * 1000 > INSTANCE_TTL}
               = fst ` {y \<in> set es. now - timestamp (snd y) * 1000 > INSTANCE_TTL}"
      using False x by auto
    have "sweep_loop now (x # es) c = sweep_loop now es c"
      using False x by simp
    also have "\<dots> = filter (\<lambda>e. fst e \<notin> fst ` {x \<in> set es. now - timestamp (snd x) * 1000 > INSTANCE_TTL}) c"
      using Cons.IH [OF Cons.prems] .
    also have "\<dots> = filter (\<lambda>e. fst e \<notin> fst ` {y \<in> set (x # es). now - timestamp (snd y) * 1000 > INSTANCE_TTL}) c"
      unfolding img by simp
    finally show ?thesis .
  qed
qed

lemma sweep_filter:
  assumes "distinct (map fst c)"
  shows "sweep now c = filter (\<lambda>e. \<not> now - timestamp (snd e) * 1000 > INSTANCE_TTL) c"
proof -
  have "fst e \<in> fst ` {x \<in> set c. now - timestamp (snd x) * 1000 > INSTANCE_TTL}
        \<longleftrightarrow> now - timestamp (snd e) * 1000 > INSTANCE_TTL" if "e \<in> set c" for e
  proof
    assume "fst e \<in> fst ` {x \<in> set c. now - timestamp (snd x) * 1000 > INSTANCE_TTL}"
    then obtain x where x: "x \<in> set c" "fst x = fst e" "now - timestamp (snd x) * 1000 > INSTANCE_TTL"
      by auto
    from assms x(1,2) that have "x = e"
      by (metis distinct_map inj_onD)
    with x(3) show "now - timestamp (snd e) * 1000 > INSTANCE_TTL" by simp
  next
    assume "now - timestamp (snd e) * 1000 > INSTANCE_TTL"
    with that show "fst e \<in> fst ` {x \<in> set c. now - timestamp (snd x) * 1000 > INSTANCE_TTL}"
      by auto
  qed
  then show ?thesis
    unfolding sweep_def sweep_loop_filter [OF assms]
    by (intro filter_cong) auto
qed

lemma wf_sweep: "wf_cache c \<Longrightarrow> wf_cache (sweep now c)"
  using le_trans [OF length_filter_le [of "\<lambda>e. \<not> now - timestamp (snd e) * 1000 > INSTANCE_TTL" c]]
  by (simp add: wf_cache_def sweep_filter distinct_map_filter)

lemma wf_delete_loop: "wf_cache c \<Longrightarrow> wf_cache (snd (delete_loop gid es c))"
  by (induction es) (auto simp: wf_map_delete)

lemma wf_delete_instance: "wf_cache c \<Longrightarrow> wf_cache (snd (delete_instance gid c))"
  by (simp add: delete_instance_def wf_delete_loop)

lemma delete_first_key: "(case c1 of [] \<Rightarrow> c1 | (firstKey, _) # _ \<Rightarrow> map_delete firstKey c1) = tl c1"
  by (cases c1) auto

lemma report_stored:
  assumes "req_placeId b = Some pid" "req_gameInstanceId b = Some gid" "req_animalData b = Some a"
    and "pid \<noteq> []" "gid \<noteq> []" "\<not> js_lt (avalue a) (Num 3000000)"
  shows "report now b c =
    (Stored (instance_key pid gid),
     evict (map_set (instance_key pid gid) (make_instance now pid gid a b) c))"
  using assms by (simp add: report_def Let_def delete_first_key evict_def)

lemma report_missing:
  assumes "req_placeId b = None \<or> req_placeId b = Some [] \<or> req_gameInstanceId b = None
           \<or> req_gameInstanceId b = Some [] \<or> req_animalData b = None"
  shows "report now b c = (MissingFields, c)"
  using assms by (auto simp: report_def split: option.splits)

lemma report_low:
  assumes "req_placeId b = Some pid" "req_gameInstanceId b = Some gid" "req_animalData b = Some a"
    and "pid \<noteq> []" "gid \<noteq> []" "js_lt (avalue a) (Num 3000000)"
  shows "report now b c = (ValueTooLow, c)"
  using assms by (simp add: report_def)

lemma report_cases:
  obtains (missing) "req_placeId b = None \<or> req_placeId b = Some [] \<or> req_gameInstanceId b = None
           \<or> req_gameInstanceId b = Some [] \<or> req_animalData b = None"
  | (low) pid gid a where "req_placeId b = Some pid" "req_gameInstanceId b = Some gid"
      "req_animalData b = Some a" "pid \<noteq> []" "gid \<noteq> []" "js_lt (avalue a) (Num 3000000)"
  | (stored) pid gid a where "req_placeId b = Some pid" "req_gameInstanceId b = Some gid"
      "req_animalData b = Some a" "pid \<noteq> []" "gid \<noteq> []" "\<not> js_lt (avalue a) (Num 3000000)"
  by (cases "req_placeId b"; cases "req_gameInstanceId b"; cases "req_animalData b")
     (auto, blast)

lemma wf_evict_map_set: "wf_cache c \<Longrightarrow> wf_cache (evict (map_set k v c))"
  using distinct_map_set [of c k v]
  by (auto simp: wf_cache_def evict_def length_map_set distinct_tl map_tl)

lemma wf_report: "wf_cache c \<Longrightarrow> wf_cache (snd (report now b c))"
  by (cases b rule: report_cases)
     (simp_all add: report_missing report_low report_stored wf_evict_map_set)

lemma wf_step: "wf_cache c \<Longrightarrow> wf_cache (step c x)"
  by (cases x) (simp_all add: wf_report wf_sweep wf_delete_instance)

lemma wf_empty: "wf_cache []"
  by (simp add: wf_cache_def)

lemma wf_run: "wf_cache (run ops)"
  unfolding run_def
  by (induction ops rule: rev_induct) (simp_all add: wf_empty wf_step)

lemma run_snoc: "run (ops @ [x]) = step (run ops) x"
  by (simp add: run_def)

lemma fill_key_fresh: "fst (fill_entry n) \<notin> set (map fst (map fill_entry [0..<n]))"
proof
  assume "fst (fill_entry n) \<in> set (map fst (map fill_entry [0..<n]))"
  then obtain m where "m < n" "fst (fill_entry m) = fst (fill_entry n)"
    by auto
  then have "replicate (Suc m) CHR ''i'' = replicate (Suc n) CHR ''i''"
    by (simp add: fill_entry_def instance_key_def)
  then have "length (replicate (Suc m) CHR ''i'') = length (replicate (Suc n) CHR ''i'')"
    by (rule arg_cong)
  with \<open>m < n\<close> show False by simp
qed

lemma run_fill: "n \<le> 100 \<Longrightarrow> run (map fill_report [0..<n]) = map fill_entry [0..<n]"
proof (induction n)
  case 0
  then show ?case by (simp add: run_def)
next
  case (Suc n)
  then have IH: "run (map fill_report [0..<n]) = map fill_entry [0..<n]" by simp
  have rep: "report (int n) (dog_report\<lparr>req_gameInstanceId := Some (replicate (Suc n) CHR ''i'')\<rparr>)
          (map fill_entry [0..<n])
        = (Stored (fst (fill_entry n)), evict (map_set (fst (fill_entry n)) (snd (fill_entry n)) (map fill_entry [0..<n])))"
    by (simp add: report_stored [where pid = "''P1''" and gid = "replicate (Suc n) CHR ''i''" and a = dog]
        dog_report_def dog_def js_lt_def fill_entry_def)
  have set: "map_set (fst (fill_entry n)) (snd (fill_entry n)) (map fill_entry [0..<n])
        = map fill_entry [0..<n] @ [fill_entry n]"
    using fill_key_fresh [of n] by (simp add: map_set_new)
  have "run (map fill_report [0..<Suc n]) = step (run (map fill_report [0..<n])) (fill_report n)"
    by (simp add: run_snoc)
  also have "\<dots> = step (map fill_entry [0..<n]) (fill_report n)"
    by (simp only: IH)
  also have "\<dots> = evict (map fill_entry [0..<n] @ [fill_entry n])"
    unfolding fill_report_def step.simps rep set by simp
  also have "\<dots> = map fill_entry [0..<Suc n]"
    using Suc.prems by (simp add: evict_def MAX_STORED_INSTANCES_def)
  finally show ?case .
qed

lemma fill_keys_other: "map_get (map fill_entry [0..<n]) (instance_key ''P1'' ''I1'') = None"
  by (auto simp: map_get_None fill_entry_def instance_key_def)

section \<open>The key, the stored entry and the count of a key\<close>

lemma take_until_underscore:
  "CHR ''_'' \<notin> set p \<Longrightarrow> takeWhile (\<lambda>ch. ch \<noteq> CHR ''_'') (instance_key p g) = p"
  by (induction p) (auto simp: instance_key_def)

lemma instance_key_inject:
  assumes "CHR ''_'' \<notin> set p1" "CHR ''_'' \<notin> set p2" "instance_key p1 g1 = instance_key p2 g2"
  shows "p1 = p2 \<and> g1 = g2"
proof -
  have "p1 = p2"
    using take_until_underscore [OF assms(1), of g1] take_until_underscore [OF assms(2), of g2]
      assms(3) by simp
  with assms(3) show ?thesis by (simp add: instance_key_def)
qed

lemma in_evict_map_set:
  assumes "wf_cache c"
  shows "(k, v) \<in> set (evict (map_set k v c))"
proof (cases "k \<in> set (map fst c)")
  case True
  then have "length (map_set k v c) = length c" by (simp add: length_map_set)
  moreover have "map_get (map_set k v c) k = Some v" by (simp add: map_get_map_set)
  moreover have "distinct (map fst (map_set k v c))"
    using assms by (simp add: wf_cache_def distinct_map_set)
  ultimately show ?thesis
    using assms by (simp add: evict_def wf_cache_def map_get_Some)
next
  case False
  then have new: "map_set k v c = c @ [(k, v)]" by (simp add: map_set_new)
  show ?thesis
  proof (cases c)
    case Nil
    then have "(k, v) \<in> set (evict (c @ [(k, v)]))"
      by (simp add: evict_def MAX_STORED_INSTANCES_def)
    then show ?thesis by (simp only: new)
  next
    case (Cons x xs)
    then have "(k, v) \<in> set (evict (c @ [(k, v)]))"
      by (simp add: evict_def)
    then show ?thesis by (simp only: new)
  qed
qed

lemma map_get_evict_map_set:
  assumes "wf_cache c"
  shows "map_get (evict (map_set k v c)) k = Some v"
proof -
  have "distinct (map fst (evict (map_set k v c)))"
    using wf_evict_map_set [OF assms, of k v] by (simp add: wf_cache_def)
  then show ?thesis
    using in_evict_map_set [OF assms, of k v] by (simp add: map_get_Some)
qed

lemma filter_key_absent:
  "k \<notin> set (map fst c) \<Longrightarrow> filter (\<lambda>(key, d). key = k) c = []"
  by (induction c) auto

lemma count_key:
  "distinct (map fst c) \<Longrightarrow> map_get c k = Some v \<Longrightarrow>
   length (filter (\<lambda>(key, d). key = k) c) = 1"
  by (induction c) (auto simp: filter_key_absent split: if_splits)

section \<open>Comparison, sorting and the scan for the best entry\<close>

lemma js_lt_Num: "js_lt x (Num m) \<longleftrightarrow> (\<exists>v. ToNumber x = Some v \<and> v < m)"
  by (cases x) (auto simp: js_lt_def split: option.splits)

lemma js_ge_Num: "js_ge x (Num m) \<longleftrightarrow> (\<exists>v. ToNumber x = Some v \<and> m \<le> v)"
  by (cases x) (auto simp: js_ge_def split: option.splits)

lemma js_gt_Num: "js_gt x (Num m) \<longleftrightarrow> (\<exists>v. ToNumber x = Some v \<and> m < v)"
  by (cases x) (auto simp: js_gt_def split: option.splits)

lemma js_gt_Num_Num: "js_gt (Num v) (Num m) \<longleftrightarrow> m < v"
  by (simp add: js_gt_def)

lemma number_ge_Some:
  "number_ge x y \<longleftrightarrow> (\<exists>v w. ToNumber x = Some v \<and> ToNumber y = Some w \<and> w \<le> v)"
  by (auto simp: number_ge_def split: option.splits)

lemma set_insert_sorted: "set (insert_sorted x ys) = insert x (set ys)"
  by (induction ys) auto

lemma set_array_sort: "set (array_sort xs) = set xs"
  by (induction xs) (simp_all add: array_sort_def set_insert_sorted)

lemma length_insert_sorted: "length (insert_sorted x ys) = Suc (length ys)"
  by (induction ys) auto

lemma length_array_sort: "length (array_sort xs) = length xs"
  by (induction xs) (simp_all add: array_sort_def length_insert_sorted)

lemma compare_value_number:
  "ToNumber (avalue (animalData a)) = Some v \<Longrightarrow> ToNumber (avalue (animalData b)) = Some w \<Longrightarrow>
   compare_value a b = w - v"
  by (simp add: compare_value_def js_sub_def)

lemma sorted_insert_sorted:
  assumes "sorted_wrt (\<lambda>a b. number_ge (avalue (animalData a)) (avalue (animalData b))) ys"
    and "\<exists>v. ToNumber (avalue (animalData x)) = Some v"
    and "\<forall>y \<in> set ys. \<exists>v. ToNumber (avalue (animalData y)) = Some v"
  shows "sorted_wrt (\<lambda>a b. number_ge (avalue (animalData a)) (avalue (animalData b)))
           (insert_sorted x ys)"
  using assms
proof (induction ys)
  case Nil
  then show ?case by simp
next
  case (Cons y ys)
  from Cons.prems obtain v w where v: "ToNumber (avalue (animalData x)) = Some v"
    and w: "ToNumber (avalue (animalData y)) = Some w" by auto
  show ?case
  proof (cases "compare_value x y \<le> 0")
    case True
    then have "w \<le> v" using v w by (simp add: compare_value_number)
    moreover have "\<forall>z \<in> set ys. number_ge (avalue (animalData y)) (avalue (animalData z))"
      using Cons.prems(1) by simp
    ultimately have "\<forall>z \<in> set ys. number_ge (avalue (animalData x)) (avalue (animalData z))"
      using v w by (fastforce simp: number_ge_Some)
    with True Cons.prems(1) v w \<open>w \<le> v\<close> show ?thesis
      by (simp add: number_ge_Some)
  next
    case False
    then have "v < w" using v w by (simp add: compare_value_number)
    moreover have "sorted_wrt (\<lambda>a b. number_ge (avalue (animalData a)) (avalue (animalData b)))
           (insert_sorted x ys)"
      using Cons by simp
    ultimately show ?thesis
      using False Cons.prems(1) v w by (auto simp: set_insert_sorted number_ge_Some)
  qed
qed

lemma sorted_array_sort:
  "\<forall>y \<in> set xs. \<exists>v. ToNumber (avalue (animalData y)) = Some v \<Longrightarrow>
   sorted_wrt (\<lambda>a b. number_ge (avalue (animalData a)) (avalue (animalData b))) (array_sort xs)"
proof (induction xs)
  case Nil
  then show ?case by (simp add: array_sort_def)
next
  case (Cons x xs)
  have "array_sort (x # xs) = insert_sorted x (array_sort xs)"
    by (simp add: array_sort_def)
  moreover have "sorted_wrt (\<lambda>a b. number_ge (avalue (animalData a)) (avalue (animalData b)))
      (insert_sorted x (array_sort xs))"
    using Cons by (intro sorted_insert_sorted) (simp_all add: set_array_sort)
  ultimately show ?case by simp
qed

lemma slice0_take: "\<exists>n. slice0 e xs = take n xs"
  by (auto simp: slice0_def)

lemma set_instances:
  "set (instances minValue limit c)
     \<subseteq> {d \<in> set (map_values c). js_ge (avalue (animalData d)) (Num minValue)}"
proof -
  obtain n where "instances minValue limit c
      = take n (array_sort (filter (\<lambda>i. js_ge (avalue (animalData i)) (Num minValue)) (map_values c)))"
    using slice0_take unfolding instances_def by blast
  then show ?thesis
    using set_take_subset [of n "array_sort (filter (\<lambda>i. js_ge (avalue (animalData i)) (Num minValue)) (map_values c))"]
    by (auto simp: set_array_sort)
qed

lemma sorted_instances:
  "sorted_wrt (\<lambda>a b. number_ge (avalue (animalData a)) (avalue (animalData b)))
     (instances minValue limit c)"
proof -
  define F where "F = filter (\<lambda>i. js_ge (avalue (animalData i)) (Num minValue)) (map_values c)"
  have num: "\<forall>y \<in> set F. \<exists>v. ToNumber (avalue (animalData y)) = Some v"
    by (auto simp: F_def js_ge_Num)
  obtain n where n: "slice0 limit (array_sort F) = take n (array_sort F)"
    using slice0_take by blast
  show ?thesis
    unfolding instances_def F_def [symmetric] n
    using sorted_array_sort [OF num] by (rule sorted_wrt_take)
qed

lemma in_instances:
  assumes "d \<in> set (map_values c)" "js_ge (avalue (animalData d)) (Num minValue)"
    and "int (length c) \<le> limit"
  shows "d \<in> set (instances minValue limit c)"
proof -
  define F where "F = filter (\<lambda>i. js_ge (avalue (animalData i)) (Num minValue)) (map_values c)"
  have "length F \<le> length c"
    by (simp add: F_def map_values_def le_trans [OF length_filter_le])
  with assms(3) have "length (array_sort F) \<le> nat limit" "0 \<le> limit"
    by (simp_all add: length_array_sort)
  then have "instances minValue limit c = array_sort F"
    by (simp add: instances_def F_def [symmetric] slice0_def)
  with assms(1,2) show ?thesis
    by (simp add: set_array_sort F_def)
qed

lemma best_instance_loop: "best_instance c = best_loop (map_values c) None (Num 0)"
  by (cases c) (simp_all add: best_instance_def map_values_def)

lemma best_loop_stored: "best_loop xs bi bv = Some e \<Longrightarrow> bi = Some e \<or> e \<in> set xs"
  by (induction xs arbitrary: bi bv) (auto split: if_splits)

lemma best_instance_stored: "best_instance c = Some e \<Longrightarrow> e \<in> set (map_values c)"
  using best_loop_stored [of "map_values c" None "Num 0" e]
  by (simp add: best_instance_loop)

lemma best_loop_kept: "best_loop xs (Some i) bv \<noteq> None"
  by (induction xs arbitrary: i bv) auto

lemma best_loop_found:
  "d \<in> set xs \<Longrightarrow> avalue (animalData d) = Num v \<Longrightarrow> 0 < v \<Longrightarrow>
   best_loop xs None (Num 0) \<noteq> None"
proof (induction xs)
  case Nil
  then show ?case by simp
next
  case (Cons x xs)
  show ?case
  proof (cases "js_gt (avalue (animalData x)) (Num 0)")
    case True
    then show ?thesis by (simp add: best_loop_kept)
  next
    case False
    with Cons.prems have "d \<noteq> x" by (auto simp: js_gt_Num_Num)
    with Cons False show ?thesis by simp
  qed
qed

lemma best_loop_scan:
  assumes "\<forall>d \<in> set xs. \<exists>v. avalue (animalData d) = Num v"
    and "best_loop xs bi (Num bv) = r"
  shows "(r = bi \<and> (\<forall>d \<in> set xs. \<exists>w. avalue (animalData d) = Num w \<and> w \<le> bv)) \<or>
   (\<exists>ys e zs v. xs = ys @ e # zs \<and> r = Some e \<and> avalue (animalData e) = Num v \<and> bv < v \<and>
      (\<forall>d \<in> set ys. \<exists>w. avalue (animalData d) = Num w \<and> w < v) \<and>
      (\<forall>d \<in> set zs. \<exists>w. avalue (animalData d) = Num w \<and> w \<le> v))"
  using assms
proof (induction xs arbitrary: bi bv)
  case Nil
  then show ?case by simp
next
  case (Cons x xs)
  from Cons.prems(1) obtain w where w: "avalue (animalData x) = Num w" by auto
  from Cons.prems(1) have num: "\<forall>d \<in> set xs. \<exists>v. avalue (animalData d) = Num v" by simp
  show ?case
  proof (cases "bv < w")
    case True
    with Cons.prems(2) w have "best_loop xs (Some x) (Num w) = r"
      by (simp add: js_gt_Num_Num)
    from Cons.IH [OF num this] show ?thesis
    proof
      assume "r = Some x \<and> (\<forall>d \<in> set xs. \<exists>u. avalue (animalData d) = Num u \<and> u \<le> w)"
      with w True have "x # xs = [] @ x # xs \<and> r = Some x \<and> avalue (animalData x) = Num w \<and> bv < w \<and>
        (\<forall>d \<in> set []. \<exists>u. avalue (animalData d) = Num u \<and> u < w) \<and>
        (\<forall>d \<in> set xs. \<exists>u. avalue (animalData d) = Num u \<and> u \<le> w)" by simp
      then show ?thesis by blast
    next
      assume "\<exists>ys e zs v. xs = ys @ e # zs \<and> r = Some e \<and> avalue (animalData e) = Num v \<and> w < v \<and>
        (\<forall>d \<in> set ys. \<exists>u. avalue (animalData d) = Num u \<and> u < v) \<and>
        (\<forall>d \<in> set zs. \<exists>u. avalue (animalData d) = Num u \<and> u \<le> v)"
      then obtain ys e zs v where *: "xs = ys @ e # zs" "r = Some e" "avalue (animalData e) = Num v"
        "w < v" "\<forall>d \<in> set ys. \<exists>u. avalue (animalData d) = Num u \<and> u < v"
        "\<forall>d \<in> set zs. \<exists>u. avalue (animalData d) = Num u \<and> u \<le> v" by blast
      with w True have "x # xs = (x # ys) @ e # zs \<and> r = Some e \<and> avalue (animalData e) = Num v \<and> bv < v \<and>
        (\<forall>d \<in> set (x # ys). \<exists>u. avalue (animalData d) = Num u \<and> u < v) \<and>
        (\<forall>d \<in> set zs. \<exists>u. avalue (animalData d) = Num u \<and> u \<le> v)"
        by simp
      then show ?thesis by blast
    qed
  next
    case False
    with Cons.prems(2) w have "best_loop xs bi (Num bv) = r"
      by (simp add: js_gt_Num_Num)
    from Cons.IH [OF num this] show ?thesis
    proof
      assume "r = bi \<and> (\<forall>d \<in> set xs. \<exists>u. avalue (animalData d) = Num u \<and> u \<le> bv)"
      with False w show ?thesis by simp
    next
      assume "\<exists>ys e zs v. xs = ys @ e # zs \<and> r = Some e \<and> avalue (animalData e) = Num v \<and> bv < v \<and>
        (\<forall>d \<in> set ys. \<exists>u. avalue (animalData d) = Num u \<and> u < v) \<and>
        (\<forall>d \<in> set zs. \<exists>u. avalue (animalData d) = Num u \<and> u \<le> v)"
      then obtain ys e zs v where *: "xs = ys @ e # zs" "r = Some e" "avalue (animalData e) = Num v"
        "bv < v" "\<forall>d \<in> set ys. \<exists>u. avalue (animalData d) = Num u \<and> u < v"
        "\<forall>d \<in> set zs. \<exists>u. avalue (animalData d) = Num u \<and> u \<le> v" by blast
      with False w have "x # xs = (x # ys) @ e # zs \<and> r = Some e \<and> avalue (animalData e) = Num v \<and> bv < v \<and>
        (\<forall>d \<in> set (x # ys). \<exists>u. avalue (animalData d) = Num u \<and> u < v) \<and>
        (\<forall>d \<in> set zs. \<exists>u. avalue (animalData d) = Num u \<and> u \<le> v)"
        by simp
      then show ?thesis by blast
    qed
  qed
qed

section \<open>What the operations leave in the map\<close>

lemma set_map_delete: "set (map_delete k c) \<subseteq> set c"
  by (induction c) (auto split: if_splits)

lemma set_sweep_loop: "set (sweep_loop now es c) \<subseteq> set c"
proof (induction es arbitrary: c)
  case Nil
  then show ?case by simp
next
  case (Cons x es)
  obtain key d where x: "x = (key, d)" by (cases x)
  show ?case
    using Cons.IH [of c] Cons.IH [of "map_delete key c"] set_map_delete [of key c]
    by (auto simp: x)
qed

lemma set_delete_loop: "set (snd (delete_loop gid es c)) \<subseteq> set c"
  by (induction es) (auto split: if_splits dest: subsetD [OF set_map_delete])

lemma set_evict_map_set: "set (evict (map_set k v c)) \<subseteq> insert (k, v) (set c)"
proof -
  have "set (map_set k v c) \<subseteq> insert (k, v) (set c)"
    by (induction c) (auto split: if_splits)
  moreover have "set (evict c1) \<subseteq> set c1" for c1
    by (cases c1) (auto simp: evict_def)
  ultimately show ?thesis by blast
qed

lemma admitted_subset: "values_admitted c \<Longrightarrow> set c' \<subseteq> set c \<Longrightarrow> values_admitted c'"
  by (auto simp: values_admitted_def)

lemma admitted_report: "values_admitted c \<Longrightarrow> values_admitted (snd (report now b c))"
proof (cases b rule: report_cases)
  case missing
  then show "values_admitted c \<Longrightarrow> ?thesis" by (simp add: report_missing)
next
  case (low pid gid a)
  then show "values_admitted c \<Longrightarrow> ?thesis" by (simp add: report_low)
next
  case (stored pid gid a)
  assume adm: "values_admitted c"
  have "\<not> js_lt (avalue (animalData (make_instance now pid gid a b))) (Num 3000000)"
    using stored(6) by (simp add: make_instance_def)
  then have "values_admitted ((instance_key pid gid, make_instance now pid gid a b) # c)"
    using adm by (simp add: values_admitted_def)
  then show ?thesis
    using set_evict_map_set [of "instance_key pid gid" "make_instance now pid gid a b" c]
    by (simp add: report_stored [OF stored] admitted_subset)
qed

lemma admitted_step: "values_admitted c \<Longrightarrow> values_admitted (step c x)"
proof (cases x)
  case (Report now b)
  then show "values_admitted c \<Longrightarrow> ?thesis" by (simp add: admitted_report)
next
  case (Sweep now)
  then show "values_admitted c \<Longrightarrow> ?thesis"
    using set_sweep_loop [of now c c] by (simp add: sweep_def admitted_subset)
next
  case (Delete gid)
  then show "values_admitted c \<Longrightarrow> ?thesis"
    using set_delete_loop [of gid c c] by (simp add: delete_instance_def admitted_subset)
qed

lemma admitted_empty: "values_admitted []"
  by (simp add: values_admitted_def)

lemma admitted_run: "values_admitted (run ops)"
  unfolding run_def
  by (induction ops rule: rev_induct) (simp_all add: admitted_empty admitted_step)

lemma swept_entries:
  assumes "d \<in> set (map_values (sweep now (run ops)))"
  shows "\<not> now - timestamp d * 1000 > INSTANCE_TTL"
proof -
  have "distinct (map fst (run ops))"
    using wf_run [of ops] by (simp add: wf_cache_def)
  then show ?thesis
    using assms by (auto simp: sweep_filter map_values_def)
qed

section \<open>The query parameters\<close>

lemma parseInt_undefined: "parseInt ''undefined'' = None"
  by code_simp

lemma query_param_None: "query_param None d = d"
  by (simp add: query_param_def parseInt_undefined)

lemma query_param_falsy:
  "parseInt s = None \<or> parseInt s = Some 0 \<Longrightarrow> query_param (Some s) d = d"
  by (auto simp: query_param_def)

section \<open>The stored entry as the handlers see it\<close>

lemma make_instance_fields:
  "placeId (make_instance now pid gid a b) = pid \<and>
   gameInstanceId (make_instance now pid gid a b) = gid \<and>
   animalData (make_instance now pid gid a b) = a \<and>
   timestamp (make_instance now pid gid a b)
     = (case req_timestamp b of None \<Rightarrow> now div 1000
        | Some ts \<Rightarrow> if ts = 0 then now div 1000 else ts) \<and>
   source (make_instance now pid gid a b)
     = (case req_source b of None \<Rightarrow> ''unknown''
        | Some s \<Rightarrow> if s = [] then ''unknown'' else s) \<and>
   lastUpdated (make_instance now pid gid a b) = now"
  by (simp add: make_instance_def)

lemma query_param_100: "query_param (Some ''100'') 50 = 100"
  by code_simp

lemma query_param_parsed:
  "parseInt s = Some n \<Longrightarrow> n \<noteq> 0 \<Longrightarrow> query_param (Some s) d = n"
  by (simp add: query_param_def)

lemma query_param_nonzero: "d \<noteq> 0 \<Longrightarrow> query_param p d \<noteq> 0"
  by (auto simp: query_param_def split: option.splits)

lemma in_query:
  assumes "d \<in> set (map_values c)" "avalue (animalData d) = Num v"
    and "query_param qMinValue 3000000 \<le> v" "int (length c) \<le> query_param qLimit 50"
  shows "project t d \<in> set (query qMinValue qLimit t c)"
proof -
  have "js_ge (avalue (animalData d)) (Num (query_param qMinValue 3000000))"
    using assms(2,3) by (simp add: js_ge_Num)
  from in_instances [OF assms(1) this assms(4)] show ?thesis
    by (simp add: query_def)
qed

lemma best_at_least:
  assumes "\<forall>x \<in> set (map_values c). \<exists>w. avalue (animalData x) = Num w"
    and "d \<in> set (map_values c)" "avalue (animalData d) = Num v" "0 < v"
  shows "\<exists>e w. best_instance c = Some e \<and> avalue (animalData e) = Num w \<and> v \<le> w"
proof -
  from best_loop_scan [OF assms(1) refl, of None 0, folded best_instance_loop]
  show ?thesis
  proof
    assume "best_instance c = None \<and> (\<forall>d \<in> set (map_values c). \<exists>w. avalue (animalData d) = Num w \<and> w \<le> 0)"
    with assms(2-4) show ?thesis by fastforce
  next
    assume "\<exists>ys e zs v. map_values c = ys @ e # zs \<and> best_instance c = Some e \<and>
      avalue (animalData e) = Num v \<and> 0 < v \<and>
      (\<forall>d \<in> set ys. \<exists>w. avalue (animalData d) = Num w \<and> w < v) \<and>
      (\<forall>d \<in> set zs. \<exists>w. avalue (animalData d) = Num w \<and> w \<le> v)"
    then obtain ys e zs u where *: "map_values c = ys @ e # zs" "best_instance c = Some e"
      "avalue (animalData e) = Num u"
      "\<forall>d \<in> set ys. \<exists>w. avalue (animalData d) = Num w \<and> w < u"
      "\<forall>d \<in> set zs. \<exists>w. avalue (animalData d) = Num w \<and> w \<le> u" by blast
    from assms(2) *(1) have "d \<in> set ys \<or> d = e \<or> d \<in> set zs" by auto
    with assms(3) *(3-5) have "v \<le> u" by fastforce
    with *(2,3) show ?thesis by blast
  qed
qed

text \<open>
  The scan on stored strings: line 39 accepts the strings "5000000" and "10000000", line
  54 stores them as they are, the query orders them by their numbers, and the scan
  compares the second with the first as strings and keeps the first.
\<close>

lemma best_compares_strings:
  "map (res_value) (query None None 3000
     (run [Report 1000 (dog_report\<lparr>req_animalData := Some (dog\<lparr>avalue := Str ''5000000'' (Some 5000000)\<rparr>)\<rparr>),
           Report 2000 (cat_report\<lparr>req_animalData := Some (dog\<lparr>avalue := Str ''10000000'' (Some 10000000)\<rparr>)\<rparr>)]))
     = [Str ''10000000'' (Some 10000000), Str ''5000000'' (Some 5000000)] \<and>
   map_option res_value (best 3000
     (run [Report 1000 (dog_report\<lparr>req_animalData := Some (dog\<lparr>avalue := Str ''5000000'' (Some 5000000)\<rparr>)\<rparr>),
           Report 2000 (cat_report\<lparr>req_animalData := Some (dog\<lparr>avalue := Str ''10000000'' (Some 10000000)\<rparr>)\<rparr>)]))
     = Some (Str ''5000000'' (Some 5000000))"
  by code_simp

section \<open>The claims\<close>

subsection \<open>C1: entries older than the time to live\<close>

text \<open>
  C1, as the code has it. Neither handler tests the age of an entry: \<open>instances\<close>, the
  array that \<open>GET /api/instances\<close> sends, holds every stored entry whose value reaches
  \<open>minValue\<close> as long as \<open>limit\<close> does not cut it, and \<open>best_instance\<close>, the entry that
  \<open>GET /api/best\<close> sends, is a stored entry. Expiry is the work of the sweep alone: in the
  state a sweep at time \<open>now\<close> leaves, no entry that the two handlers return has
  \<open>now - timestamp * 1000 > INSTANCE_TTL\<close>.
\<close>

theorem no_expired_after_sweep:
  "(\<forall>e \<in> set (instances minValue limit (sweep now (run ops))).
       \<not> now - timestamp e * 1000 > INSTANCE_TTL) \<and>
   (\<forall>e. best_instance (sweep now (run ops)) = Some e \<longrightarrow>
       \<not> now - timestamp e * 1000 > INSTANCE_TTL) \<and>
   (\<forall>d \<in> set (map_values c).
       js_ge (avalue (animalData d)) (Num minValue) \<and> int (length c) \<le> limit \<longrightarrow>
       d \<in> set (instances minValue limit c)) \<and>
   set (instances minValue limit c) \<subseteq> set (map_values c) \<and>
   (\<forall>e. best_instance c = Some e \<longrightarrow> e \<in> set (map_values c))"
proof (intro conjI ballI allI impI)
  note swept = swept_entries [of _ now ops]
  show "\<not> now - timestamp e * 1000 > INSTANCE_TTL"
    if "e \<in> set (instances minValue limit (sweep now (run ops)))" for e
    using that set_instances [of minValue limit "sweep now (run ops)"] swept by blast
  show "\<not> now - timestamp e * 1000 > INSTANCE_TTL"
    if "best_instance (sweep now (run ops)) = Some e" for e
    using that by (intro swept best_instance_stored)
  show "d \<in> set (instances minValue limit c)"
    if "d \<in> set (map_values c)"
      "js_ge (avalue (animalData d)) (Num minValue) \<and> int (length c) \<le> limit" for d
    using that in_instances by blast
  show "set (instances minValue limit c) \<subseteq> set (map_values c)"
    using set_instances [of minValue limit c] by blast
  show "e \<in> set (map_values c)" if "best_instance c = Some e" for e
    using that by (rule best_instance_stored)
qed

text \<open>
  C1 at a state with two entries, of which the sweep at millisecond 3601001 removes the
  first; before the sweep the first one is returned.
\<close>

theorem no_expired_after_sweep_witness:
  "instances 3000000 50 (sweep 3601001 (run [Report 1000 dog_report, Report 2000 cat_report]))
     = [make_instance 2000 ''P1'' ''I2'' (dog\<lparr>displayName := Some ''Cat'', avalue := Num 7000000\<rparr>) cat_report] \<and>
   best_instance (sweep 3601001 (run [Report 1000 dog_report, Report 2000 cat_report]))
     = Some (make_instance 2000 ''P1'' ''I2'' (dog\<lparr>displayName := Some ''Cat'', avalue := Num 7000000\<rparr>) cat_report) \<and>
   \<not> 3601001 - timestamp (make_instance 2000 ''P1'' ''I2'' (dog\<lparr>displayName := Some ''Cat'', avalue := Num 7000000\<rparr>) cat_report) * 1000
       > INSTANCE_TTL \<and>
   make_instance 1000 ''P1'' ''I1'' dog dog_report
     \<in> set (instances 3000000 50 (run [Report 1000 dog_report, Report 2000 cat_report])) \<and>
   best_instance (run [Report 1000 dog_report, Report 2000 cat_report])
     = Some (make_instance 2000 ''P1'' ''I2'' (dog\<lparr>displayName := Some ''Cat'', avalue := Num 7000000\<rparr>) cat_report) \<and>
   make_instance 2000 ''P1'' ''I2'' (dog\<lparr>displayName := Some ''Cat'', avalue := Num 7000000\<rparr>) cat_report
     \<in> set (map_values (run [Report 1000 dog_report, Report 2000 cat_report]))"
proof -
  have b': "best_instance (run [Report 1000 dog_report, Report 2000 cat_report])
     = Some (make_instance 2000 ''P1'' ''I2'' (dog\<lparr>displayName := Some ''Cat'', avalue := Num 7000000\<rparr>) cat_report)"
    by code_simp
  have i: "instances 3000000 50 (sweep 3601001 (run [Report 1000 dog_report, Report 2000 cat_report]))
     = [make_instance 2000 ''P1'' ''I2'' (dog\<lparr>displayName := Some ''Cat'', avalue := Num 7000000\<rparr>) cat_report]"
    by code_simp
  have b: "best_instance (sweep 3601001 (run [Report 1000 dog_report, Report 2000 cat_report]))
     = Some (make_instance 2000 ''P1'' ''I2'' (dog\<lparr>displayName := Some ''Cat'', avalue := Num 7000000\<rparr>) cat_report)"
    by code_simp
  have m: "make_instance 1000 ''P1'' ''I1'' dog dog_report
      \<in> set (map_values (run [Report 1000 dog_report, Report 2000 cat_report]))"
    by code_simp
  have g: "js_ge (avalue (animalData (make_instance 1000 ''P1'' ''I1'' dog dog_report))) (Num 3000000)
      \<and> int (length (run [Report 1000 dog_report, Report 2000 cat_report])) \<le> 50"
    by code_simp
  from no_expired_after_sweep [of 3000000 50 3601001 "[Report 1000 dog_report, Report 2000 cat_report]"
      "run [Report 1000 dog_report, Report 2000 cat_report]"] i b b' m g
  show ?thesis by simp
qed

text \<open>
  C1 as the specification states it fails. An entry stored at millisecond 1000 survives
  the sweep at millisecond 3600000; at millisecond 3601001 its \<open>lastUpdated\<close> is more than
  \<open>INSTANCE_TTL\<close> in the past, and both handlers return it (with an age of 3600 seconds).
\<close>

theorem expired_entry_returned_counterexample:
  "3601001 - lastUpdated (make_instance 1000 ''P1'' ''I1'' dog dog_report) > INSTANCE_TTL \<and>
   instances 3000000 50 (run [Report 1000 dog_report, Sweep 3600000])
     = [make_instance 1000 ''P1'' ''I1'' dog dog_report] \<and>
   map res_age (query None None 3601001 (run [Report 1000 dog_report, Sweep 3600000])) = [3600] \<and>
   best_instance (run [Report 1000 dog_report, Sweep 3600000])
     = Some (make_instance 1000 ''P1'' ''I1'' dog dog_report)"
  by code_simp

subsection \<open>C2: what one tick of the sweep removes\<close>

text \<open>
  C2, as the code has it. In every state the server can reach, one tick of the sweep at
  time \<open>now\<close> removes exactly the entries with \<open>now - timestamp * 1000 > INSTANCE_TTL\<close> and
  keeps all the others, unchanged and in their order. The test reads \<open>timestamp\<close>, the
  seconds the producer sent (or the seconds of the clock at the upsert when it sent
  none), not \<open>lastUpdated\<close>, the milliseconds the server stamped.
\<close>

theorem sweep_removes_by_timestamp:
  "sweep now (run ops) =
     filter (\<lambda>(key, d). \<not> now - timestamp d * 1000 > INSTANCE_TTL) (run ops)"
proof -
  have "distinct (map fst (run ops))"
    using wf_run [of ops] by (simp add: wf_cache_def)
  then show ?thesis
    by (simp add: sweep_filter split_def)
qed

text \<open>
  C2 as the specification states it, on \<open>lastUpdated\<close>, fails: an entry stored at
  millisecond 1000 with a producer time stamp of 10000 seconds is more than an hour old
  at millisecond 3700000, and the sweep keeps it.
\<close>

theorem sweep_by_receivedAt_counterexample:
  "sweep 3700000 (run [Report 1000 (dog_report\<lparr>req_timestamp := Some 10000\<rparr>)])
   \<noteq> filter (\<lambda>(key, d). \<not> 3700000 - lastUpdated d > INSTANCE_TTL)
        (run [Report 1000 (dog_report\<lparr>req_timestamp := Some 10000\<rparr>)])"
  by code_simp

subsection \<open>C3: the capacity bound and the eviction order\<close>

text \<open>
  C3. Whatever operations ran since the start, the map holds at most
  \<open>MAX_STORED_INSTANCES\<close> entries. A report that is stored under a key the map does not
  hold while the map is full drops the entry at the head of the iteration order, the
  one inserted first among those present, and appends the new one; in every other case
  the stored report evicts nothing.
\<close>

theorem capacity_bound:
  "length (run ops) \<le> MAX_STORED_INSTANCES \<and>
   (req_placeId b = Some pid \<and> req_gameInstanceId b = Some gid \<and> req_animalData b = Some a \<and>
    pid \<noteq> [] \<and> gid \<noteq> [] \<and> \<not> js_lt (avalue a) (Num 3000000) \<longrightarrow>
      snd (report now b (run ops)) =
        (if map_get (run ops) (instance_key pid gid) = None \<and>
            length (run ops) = MAX_STORED_INSTANCES
         then tl (run ops) @ [(instance_key pid gid, make_instance now pid gid a b)]
         else map_set (instance_key pid gid) (make_instance now pid gid a b) (run ops)))"
proof (intro conjI impI)
  show len: "length (run ops) \<le> MAX_STORED_INSTANCES"
    using wf_run [of ops] by (simp add: wf_cache_def)
  assume valid: "req_placeId b = Some pid \<and> req_gameInstanceId b = Some gid \<and>
    req_animalData b = Some a \<and> pid \<noteq> [] \<and> gid \<noteq> [] \<and> \<not> js_lt (avalue a) (Num 3000000)"
  define k where "k = instance_key pid gid"
  define v where "v = make_instance now pid gid a b"
  have rep: "snd (report now b (run ops)) = evict (map_set k v (run ops))"
    using valid by (simp add: report_stored k_def v_def)
  show "snd (report now b (run ops)) =
        (if map_get (run ops) (instance_key pid gid) = None \<and>
            length (run ops) = MAX_STORED_INSTANCES
         then tl (run ops) @ [(instance_key pid gid, make_instance now pid gid a b)]
         else map_set (instance_key pid gid) (make_instance now pid gid a b) (run ops))"
  proof (cases "map_get (run ops) k = None")
    case True
    then have new: "map_set k v (run ops) = run ops @ [(k, v)]"
      by (simp add: map_get_None map_set_new)
    show ?thesis
    proof (cases "length (run ops) = MAX_STORED_INSTANCES")
      case full: True
      then have "run ops \<noteq> []"
        by (auto simp: MAX_STORED_INSTANCES_def)
      with True full show ?thesis
        unfolding rep new k_def [symmetric] v_def [symmetric]
        by (simp add: evict_def)
    next
      case False
      with len True show ?thesis
        unfolding rep new k_def [symmetric] v_def [symmetric]
        by (simp add: evict_def)
    qed
  next
    case False
    then have "length (map_set k v (run ops)) = length (run ops)"
      by (simp add: length_map_set map_get_None)
    with len False show ?thesis
      unfolding rep k_def [symmetric] v_def [symmetric]
      by (auto simp: evict_def)
  qed
qed

text \<open>C3 at a full map: one hundred reports under different keys, then one more.\<close>

theorem capacity_bound_witness:
  "length (run (map fill_report [0..<100])) = MAX_STORED_INSTANCES \<and>
   map_get (run (map fill_report [0..<100])) (instance_key ''P1'' ''I1'') = None \<and>
   snd (report 1000 dog_report (run (map fill_report [0..<100]))) =
     tl (run (map fill_report [0..<100]))
       @ [(instance_key ''P1'' ''I1'', make_instance 1000 ''P1'' ''I1'' dog dog_report)]"
proof -
  have full: "length (run (map fill_report [0..<100])) = MAX_STORED_INSTANCES"
    by (simp add: run_fill MAX_STORED_INSTANCES_def)
  have fresh: "map_get (run (map fill_report [0..<100])) (instance_key ''P1'' ''I1'') = None"
    by (simp only: run_fill fill_keys_other)
  have valid: "req_placeId dog_report = Some ''P1'' \<and> req_gameInstanceId dog_report = Some ''I1'' \<and>
    req_animalData dog_report = Some dog \<and> ''P1'' \<noteq> [] \<and> ''I1'' \<noteq> [] \<and>
    \<not> js_lt (avalue dog) (Num 3000000)"
    by (simp add: dog_report_def dog_def js_lt_def)
  from capacity_bound [of "map fill_report [0..<100]" dog_report "''P1''" "''I1''" dog 1000]
    valid full fresh
  show ?thesis by simp
qed

subsection \<open>C4: the key of a pair of identifiers\<close>

text \<open>
  C4, as the code has it. The key joins the two identifiers with an underscore. For
  place identifiers that contain no underscore, different pairs have different keys,
  and \<open>set\<close> under the key of one pair leaves the entry under the key of the other as it
  was.
\<close>

theorem key_injective_without_underscore:
  assumes "CHR ''_'' \<notin> set p1" "CHR ''_'' \<notin> set p2" "(p1, g1) \<noteq> (p2, g2)"
  shows "instance_key p1 g1 \<noteq> instance_key p2 g2 \<and>
         map_get (map_set (instance_key p2 g2) v c) (instance_key p1 g1)
           = map_get c (instance_key p1 g1)"
  using assms instance_key_inject [of p1 p2 g1 g2] by (auto simp: map_get_map_set)

text \<open>C4 at two pairs with the same place identifier.\<close>

theorem key_injective_without_underscore_witness:
  "CHR ''_'' \<notin> set ''12'' \<and> (''12'', ''a_b'') \<noteq> (''12'', ''a'') \<and>
   instance_key ''12'' ''a_b'' \<noteq> instance_key ''12'' ''a'' \<and>
   map_get (map_set (instance_key ''12'' ''a'') (make_instance 2000 ''12'' ''a'' dog dog_report)
              (run [Report 1000 (dog_report\<lparr>req_placeId := Some ''12'', req_gameInstanceId := Some ''a_b''\<rparr>)]))
           (instance_key ''12'' ''a_b'')
     = map_get (run [Report 1000 (dog_report\<lparr>req_placeId := Some ''12'', req_gameInstanceId := Some ''a_b''\<rparr>)])
         (instance_key ''12'' ''a_b'')"
proof -
  have h1: "CHR ''_'' \<notin> set ''12''" by simp
  have h2: "(''12'', ''a_b'') \<noteq> (''12'', ''a'')" by simp
  from key_injective_without_underscore [OF h1 h1 h2] h1 h2 show ?thesis by blast
qed

text \<open>
  C4 as the specification states it fails: the pairs ("a_b", "c") and ("a", "b_c") are
  different and have the same key, so the second report replaces the entry of the first.
\<close>

theorem key_collision_counterexample:
  "(''a_b'', ''c'') \<noteq> (''a'', ''b_c'') \<and>
   instance_key ''a_b'' ''c'' = instance_key ''a'' ''b_c'' \<and>
   map (\<lambda>(key, d). (placeId d, gameInstanceId d))
     (run [Report 1000 (dog_report\<lparr>req_placeId := Some ''a_b'', req_gameInstanceId := Some ''c''\<rparr>),
           Report 2000 (dog_report\<lparr>req_placeId := Some ''a'', req_gameInstanceId := Some ''b_c''\<rparr>)])
     = [(''a'', ''b_c'')]"
  by code_simp

subsection \<open>C5: the validation of a report\<close>

text \<open>
  C5, as the code has it. The handler answers "Missing required fields" exactly when
  \<open>placeId\<close>, \<open>gameInstanceId\<close> or \<open>animalData\<close> is falsy (absent, or the empty string for
  the two identifiers), and then the map is unchanged. \<open>animalData.value\<close> is not part of
  this test.
\<close>

theorem validation_error_iff:
  "(fst (report now b c) = MissingFields \<longleftrightarrow>
      (req_placeId b = None \<or> req_placeId b = Some [] \<or> req_gameInstanceId b = None \<or>
       req_gameInstanceId b = Some [] \<or> req_animalData b = None)) \<and>
   (fst (report now b c) = MissingFields \<longrightarrow> snd (report now b c) = c)"
  by (cases b rule: report_cases) (auto simp: report_missing report_low report_stored)

text \<open>C5 at a report with an empty instance identifier, sent to a map with one entry.\<close>

theorem validation_error_iff_witness:
  "fst (report 2000 (dog_report\<lparr>req_gameInstanceId := Some []\<rparr>) (run [Report 1000 dog_report]))
     = MissingFields \<and>
   req_gameInstanceId (dog_report\<lparr>req_gameInstanceId := Some []\<rparr>) = Some [] \<and>
   snd (report 2000 (dog_report\<lparr>req_gameInstanceId := Some []\<rparr>) (run [Report 1000 dog_report]))
     = run [Report 1000 dog_report]"
proof -
  have h: "req_gameInstanceId (dog_report\<lparr>req_gameInstanceId := Some []\<rparr>) = Some []"
    by simp
  from validation_error_iff [of 2000 "dog_report\<lparr>req_gameInstanceId := Some []\<rparr>"
      "run [Report 1000 dog_report]"] h
  show ?thesis by blast
qed

text \<open>
  C5 as the specification states it fails: a report whose \<open>animalData\<close> has no \<open>value\<close>, or
  the string "abc" as its \<open>value\<close>, is not answered with a validation error. The handler
  answers that it stored the instance, and the map has the new key.
\<close>

theorem missing_value_counterexample:
  "avalue (dog\<lparr>avalue := Undefined\<rparr>) = Undefined \<and>
   report 1000 (dog_report\<lparr>req_animalData := Some (dog\<lparr>avalue := Undefined\<rparr>)\<rparr>) []
     = (Stored ''P1_I1'',
        [(''P1_I1'', make_instance 1000 ''P1'' ''I1'' (dog\<lparr>avalue := Undefined\<rparr>)
                      (dog_report\<lparr>req_animalData := Some (dog\<lparr>avalue := Undefined\<rparr>)\<rparr>))]) \<and>
   fst (report 1000 (dog_report\<lparr>req_animalData := Some (dog\<lparr>avalue := Str ''abc'' None\<rparr>)\<rparr>) [])
     = Stored ''P1_I1''"
  by code_simp

subsection \<open>C6: the admission threshold\<close>

text \<open>
  C6. A report with both identifiers non-empty and a numeric value \<open>v\<close>, sent in any
  state the server can reach; \<open>c'\<close> is the map after the call. When \<open>v < 3000000\<close> the
  answer is "Value too low, not stored" and the map is unchanged, so that both query
  handlers answer as before. When \<open>3000000 \<le> v\<close> the answer is "Instance stored
  successfully" with the key, and the map holds under that key an entry with the two
  identifiers and the \<open>animalData\<close> of the report, its \<open>timestamp\<close> and \<open>source\<close> (or their
  defaults) and the time of the call. The query returns the projection of this entry,
  with the reported value, whenever \<open>minValue\<close> does not exceed \<open>v\<close> and \<open>limit\<close> is not
  below the size of the map, as with \<open>limit=100\<close>; \<open>best\<close> is not \<open>null\<close>, and when all
  stored values are numbers its value is at least \<open>v\<close>.
\<close>

theorem admission:
  assumes "req_placeId b = Some pid" "req_gameInstanceId b = Some gid" "req_animalData b = Some a"
    and "pid \<noteq> []" "gid \<noteq> []" "avalue a = Num v"
    and "c' = snd (report now b (run ops))"
  shows "(v < 3000000 \<longrightarrow>
            report now b (run ops) = (ValueTooLow, run ops) \<and>
            query qMinValue qLimit t c' = query qMinValue qLimit t (run ops) \<and>
            best t c' = best t (run ops)) \<and>
         (3000000 \<le> v \<longrightarrow>
            fst (report now b (run ops)) = Stored (instance_key pid gid) \<and>
            (\<exists>d. map_get c' (instance_key pid gid) = Some d \<and>
               placeId d = pid \<and> gameInstanceId d = gid \<and> animalData d = a \<and>
               timestamp d = (case req_timestamp b of None \<Rightarrow> now div 1000
                              | Some ts \<Rightarrow> if ts = 0 then now div 1000 else ts) \<and>
               source d = (case req_source b of None \<Rightarrow> ''unknown''
                           | Some s \<Rightarrow> if s = [] then ''unknown'' else s) \<and>
               lastUpdated d = now \<and>
               d \<in> set (map_values c') \<and>
               res_value (project t d) = Num v \<and>
               project t d \<in> set (query None (Some ''100'') t c') \<and>
               (query_param qMinValue 3000000 \<le> v \<and> int (length c') \<le> query_param qLimit 50 \<longrightarrow>
                  project t d \<in> set (query qMinValue qLimit t c')) \<and>
               best t c' \<noteq> None \<and>
               ((\<forall>x \<in> set (map_values c'). \<exists>w. avalue (animalData x) = Num w) \<longrightarrow>
                  (\<exists>e w. best_instance c' = Some e \<and> avalue (animalData e) = Num w \<and> v \<le> w))))"
proof (intro conjI impI)
  assume "v < 3000000"
  then have low: "js_lt (avalue a) (Num 3000000)"
    using assms(6) by (simp add: js_lt_Num)
  show r: "report now b (run ops) = (ValueTooLow, run ops)"
    using assms(1-5) low by (rule report_low)
  show "query qMinValue qLimit t c' = query qMinValue qLimit t (run ops)"
    by (simp add: assms(7) r)
  show "best t c' = best t (run ops)"
    by (simp add: assms(7) r)
next
  assume v: "3000000 \<le> v"
  then have high: "\<not> js_lt (avalue a) (Num 3000000)"
    using assms(6) by (simp add: js_lt_Num)
  define d where "d = make_instance now pid gid a b"
  note r = report_stored [OF assms(1-5) high, of now "run ops", folded d_def]
  have c': "c' = evict (map_set (instance_key pid gid) d (run ops))"
    by (simp add: assms(7) r)
  show "fst (report now b (run ops)) = Stored (instance_key pid gid)"
    by (simp add: r)
  have get: "map_get c' (instance_key pid gid) = Some d"
    by (simp add: c' map_get_evict_map_set [OF wf_run])
  have mem: "d \<in> set (map_values c')"
    using in_evict_map_set [OF wf_run, of "instance_key pid gid" d ops]
    by (force simp: c' map_values_def)
  have val: "avalue (animalData d) = Num v"
    by (simp add: d_def make_instance_fields assms(6))
  have len: "int (length c') \<le> 100"
    using wf_report [OF wf_run, of now b ops]
    by (simp add: assms(7) wf_cache_def MAX_STORED_INSTANCES_def)
  have q100: "project t d \<in> set (query None (Some ''100'') t c')"
    using v len by (intro in_query [OF mem val]) (simp_all add: query_param_None query_param_100)
  have best: "best t c' \<noteq> None"
    using best_loop_found [OF mem val] v
    by (simp add: best_def best_instance_loop)
  have bestv: "\<exists>e w. best_instance c' = Some e \<and> avalue (animalData e) = Num w \<and> v \<le> w"
    if "\<forall>x \<in> set (map_values c'). \<exists>w. avalue (animalData x) = Num w"
    using best_at_least [OF that mem val] v by simp
  have q: "project t d \<in> set (query qMinValue qLimit t c')"
    if "query_param qMinValue 3000000 \<le> v \<and> int (length c') \<le> query_param qLimit 50"
    using that by (intro in_query [OF mem val]) simp_all
  have "res_value (project t d) = Num v"
    by (simp add: project_def val)
  with get mem q100 q best bestv make_instance_fields [of now pid gid a b, folded d_def]
  show "\<exists>d. map_get c' (instance_key pid gid) = Some d \<and>
               placeId d = pid \<and> gameInstanceId d = gid \<and> animalData d = a \<and>
               timestamp d = (case req_timestamp b of None \<Rightarrow> now div 1000
                              | Some ts \<Rightarrow> if ts = 0 then now div 1000 else ts) \<and>
               source d = (case req_source b of None \<Rightarrow> ''unknown''
                           | Some s \<Rightarrow> if s = [] then ''unknown'' else s) \<and>
               lastUpdated d = now \<and>
               d \<in> set (map_values c') \<and>
               res_value (project t d) = Num v \<and>
               project t d \<in> set (query None (Some ''100'') t c') \<and>
               (query_param qMinValue 3000000 \<le> v \<and> int (length c') \<le> query_param qLimit 50 \<longrightarrow>
                  project t d \<in> set (query qMinValue qLimit t c')) \<and>
               best t c' \<noteq> None \<and>
               ((\<forall>x \<in> set (map_values c'). \<exists>w. avalue (animalData x) = Num w) \<longrightarrow>
                  (\<exists>e w. best_instance c' = Some e \<and> avalue (animalData e) = Num w \<and> v \<le> w))"
    by (intro exI [of _ d]) blast
qed

text \<open>C6 at a report of value 1000000 and at one of value 7000000.\<close>

theorem admission_witness:
  "report 2000 (dog_report\<lparr>req_animalData := Some (dog\<lparr>avalue := Num 1000000\<rparr>)\<rparr>)
       (run [Report 1000 dog_report])
     = (ValueTooLow, run [Report 1000 dog_report]) \<and>
   fst (report 4000 cat_report (run [Report 1000 dog_report])) = Stored (instance_key ''P1'' ''I2'') \<and>
   map_get (snd (report 4000 cat_report (run [Report 1000 dog_report]))) (instance_key ''P1'' ''I2'')
     = Some \<lparr> placeId = ''P1'', gameInstanceId = ''I2'',
              animalData = dog\<lparr>displayName := Some ''Cat'', avalue := Num 7000000\<rparr>,
              timestamp = 5, source = ''script'', lastUpdated = 4000 \<rparr> \<and>
   (\<exists>d. map_get (snd (report 4000 cat_report (run [Report 1000 dog_report]))) (instance_key ''P1'' ''I2'')
           = Some d \<and>
        animalData d = dog\<lparr>displayName := Some ''Cat'', avalue := Num 7000000\<rparr> \<and>
        project 5000 d
          \<in> set (query None (Some ''100'') 5000 (snd (report 4000 cat_report (run [Report 1000 dog_report])))) \<and>
        best 5000 (snd (report 4000 cat_report (run [Report 1000 dog_report]))) \<noteq> None)"
proof -
  have low: "avalue (dog\<lparr>avalue := Num 1000000\<rparr>) = Num 1000000" by simp
  have high: "avalue (dog\<lparr>displayName := Some ''Cat'', avalue := Num 7000000\<rparr>) = Num 7000000" by simp
  have p: "req_placeId (dog_report\<lparr>req_animalData := Some (dog\<lparr>avalue := Num 1000000\<rparr>)\<rparr>) = Some ''P1''"
    and g: "req_gameInstanceId (dog_report\<lparr>req_animalData := Some (dog\<lparr>avalue := Num 1000000\<rparr>)\<rparr>) = Some ''I1''"
    and a: "req_animalData (dog_report\<lparr>req_animalData := Some (dog\<lparr>avalue := Num 1000000\<rparr>)\<rparr>)
            = Some (dog\<lparr>avalue := Num 1000000\<rparr>)"
    by (simp_all add: dog_report_def)
  have p': "req_placeId cat_report = Some ''P1''"
    and g': "req_gameInstanceId cat_report = Some ''I2''"
    and a': "req_animalData cat_report = Some (dog\<lparr>displayName := Some ''Cat'', avalue := Num 7000000\<rparr>)"
    and ts: "req_timestamp cat_report = Some 5" and src: "req_source cat_report = Some ''script''"
    by (simp_all add: cat_report_def)
  have ne: "''P1'' \<noteq> []" "''I1'' \<noteq> []" "''I2'' \<noteq> []" by simp_all
  have stored: "map_get (snd (report 4000 cat_report (run [Report 1000 dog_report]))) (instance_key ''P1'' ''I2'')
     = Some \<lparr> placeId = ''P1'', gameInstanceId = ''I2'',
              animalData = dog\<lparr>displayName := Some ''Cat'', avalue := Num 7000000\<rparr>,
              timestamp = 5, source = ''script'', lastUpdated = 4000 \<rparr>"
    by code_simp
  from admission [OF p g a ne(1,2) low refl, of 2000 "[Report 1000 dog_report]"]
  have 1: "report 2000 (dog_report\<lparr>req_animalData := Some (dog\<lparr>avalue := Num 1000000\<rparr>)\<rparr>)
       (run [Report 1000 dog_report]) = (ValueTooLow, run [Report 1000 dog_report])"
    by simp
  from admission [OF p' g' a' ne(1,3) high refl, of 4000 "[Report 1000 dog_report]" None None 5000]
  have 2: "fst (report 4000 cat_report (run [Report 1000 dog_report])) = Stored (instance_key ''P1'' ''I2'')"
    and 3: "\<exists>d. map_get (snd (report 4000 cat_report (run [Report 1000 dog_report]))) (instance_key ''P1'' ''I2'')
           = Some d \<and>
        animalData d = dog\<lparr>displayName := Some ''Cat'', avalue := Num 7000000\<rparr> \<and>
        project 5000 d
          \<in> set (query None (Some ''100'') 5000 (snd (report 4000 cat_report (run [Report 1000 dog_report])))) \<and>
        best 5000 (snd (report 4000 cat_report (run [Report 1000 dog_report]))) \<noteq> None"
    by auto
  from 1 2 3 stored show ?thesis by blast
qed

subsection \<open>C7: the best entry\<close>

text \<open>
  C7, as the code has it. The scan looks at every stored entry, expired or not. In a
  state the server can reach in which every stored value is a number, the answer is
  \<open>null\<close> exactly when the map is empty; otherwise the scan returns an entry whose value
  no stored value exceeds, and every entry before it in the iteration order has a
  smaller value: among equal maxima the first one wins.
\<close>

theorem best_scan:
  "(\<forall>d \<in> set (map_values (run ops)). \<exists>v. avalue (animalData d) = Num v) \<longrightarrow>
   (best_instance (run ops) = None \<longleftrightarrow> run ops = []) \<and>
   (\<forall>e. best_instance (run ops) = Some e \<longrightarrow>
      (\<exists>ys zs v. map_values (run ops) = ys @ e # zs \<and> avalue (animalData e) = Num v \<and>
         (\<forall>d \<in> set ys. \<exists>w. avalue (animalData d) = Num w \<and> w < v) \<and>
         (\<forall>d \<in> set zs. \<exists>w. avalue (animalData d) = Num w \<and> w \<le> v)))"
proof (intro impI conjI allI)
  assume num: "\<forall>d \<in> set (map_values (run ops)). \<exists>v. avalue (animalData d) = Num v"
  note scan = best_loop_scan [OF num refl, of None 0, folded best_instance_loop]
  show "best_instance (run ops) = None \<longleftrightarrow> run ops = []"
  proof
    assume "run ops = []"
    then show "best_instance (run ops) = None" by (simp add: best_instance_def)
  next
    assume n: "best_instance (run ops) = None"
    show "run ops = []"
    proof (rule ccontr)
      assume "run ops \<noteq> []"
      then obtain k d where kd: "(k, d) \<in> set (run ops)"
        by (cases "run ops") auto
      then have d: "d \<in> set (map_values (run ops))"
        by (force simp: map_values_def)
      with num obtain v where v: "avalue (animalData d) = Num v" by blast
      from admitted_run [of ops] kd have "\<not> js_lt (avalue (animalData d)) (Num 3000000)"
        by (auto simp: values_admitted_def)
      with v have "0 < v" by (simp add: js_lt_Num)
      from best_loop_found [OF d v this] n show False
        by (simp add: best_instance_loop)
    qed
  qed
  show "\<exists>ys zs v. map_values (run ops) = ys @ e # zs \<and> avalue (animalData e) = Num v \<and>
         (\<forall>d \<in> set ys. \<exists>w. avalue (animalData d) = Num w \<and> w < v) \<and>
         (\<forall>d \<in> set zs. \<exists>w. avalue (animalData d) = Num w \<and> w \<le> v)"
    if "best_instance (run ops) = Some e" for e
    using scan that by auto
qed

text \<open>
  C7 at three entries of values 5000000, 7000000 and 7000000: the second is the best.
  The empty map gives \<open>null\<close>.
\<close>

theorem best_scan_witness:
  "best_instance (run three_reports)
     = Some (make_instance 2000 ''P1'' ''I2'' (dog\<lparr>displayName := Some ''Cat'', avalue := Num 7000000\<rparr>) cat_report) \<and>
   (\<exists>ys zs v.
      map_values (run three_reports)
        = ys @ make_instance 2000 ''P1'' ''I2'' (dog\<lparr>displayName := Some ''Cat'', avalue := Num 7000000\<rparr>) cat_report # zs \<and>
      avalue (animalData (make_instance 2000 ''P1'' ''I2'' (dog\<lparr>displayName := Some ''Cat'', avalue := Num 7000000\<rparr>) cat_report)) = Num v \<and>
      (\<forall>d \<in> set ys. \<exists>w. avalue (animalData d) = Num w \<and> w < v) \<and>
      (\<forall>d \<in> set zs. \<exists>w. avalue (animalData d) = Num w \<and> w \<le> v)) \<and>
   map (avalue \<circ> animalData) (map_values (run three_reports)) = [Num 5000000, Num 7000000, Num 7000000] \<and>
   best_instance (run []) = None \<and> run [] = []"
proof -
  have vs: "map (avalue \<circ> animalData) (map_values (run three_reports)) = [Num 5000000, Num 7000000, Num 7000000]"
    by code_simp
  have "\<forall>x \<in> set (map (avalue \<circ> animalData) (map_values (run three_reports))). \<exists>v. x = Num v"
    unfolding vs by simp
  then have num: "\<forall>d \<in> set (map_values (run three_reports)). \<exists>v. avalue (animalData d) = Num v"
    by simp
  have b: "best_instance (run three_reports)
     = Some (make_instance 2000 ''P1'' ''I2'' (dog\<lparr>displayName := Some ''Cat'', avalue := Num 7000000\<rparr>) cat_report)"
    by code_simp
  have e: "run [] = []" by (simp add: run_def)
  have num0: "\<forall>d \<in> set (map_values (run [])). \<exists>v. avalue (animalData d) = Num v"
    by (simp add: e map_values_def)
  note full = best_scan [of three_reports, THEN mp, OF num]
  note ex = full [THEN conjunct2, THEN spec, THEN mp, OF b]
  have n: "best_instance (run []) = None"
    using best_scan [of "[]", THEN mp, OF num0, THEN conjunct1] e by simp
  from b ex vs n e show ?thesis by (intro conjI)
qed

text \<open>
  C7 as the specification states it fails: at millisecond 3601001 no entry of the map
  is younger than \<open>INSTANCE_TTL\<close>, and the scan still returns one.
\<close>

theorem best_returns_expired_counterexample:
  "filter (\<lambda>d. \<not> 3601001 - lastUpdated d > INSTANCE_TTL)
      (map_values (run [Report 1000 dog_report, Sweep 3600000])) = [] \<and>
   best_instance (run [Report 1000 dog_report, Sweep 3600000]) \<noteq> None"
  by code_simp

subsection \<open>C8: filter, order and truncation of the query\<close>

text \<open>
  C8, as the code has it. The handler works with the minimum value and the limit that
  line 91 and line 92 compute: the parameter as \<open>parseInt\<close> reads it when that is a
  number other than 0, else 3000000 and 50. Every entry of the answer has a value whose
  number is at least that minimum, and the entries are in non-increasing order of
  these numbers. For a positive limit the answer is the first \<open>limit\<close> entries of the
  sorted array, so at most \<open>limit\<close> many; for a negative limit it is the sorted array
  without its last \<open>- limit\<close> entries. The limit is never 0. When the caller's
  \<open>minValue\<close> parses to a number, every value of the answer is at least that number.
\<close>

theorem query_filtered_sorted_truncated:
  "(\<forall>r \<in> set (query qMinValue qLimit now c).
      \<exists>v. ToNumber (res_value r) = Some v \<and> query_param qMinValue 3000000 \<le> v) \<and>
   sorted_wrt (\<lambda>a b. number_ge (res_value a) (res_value b)) (query qMinValue qLimit now c) \<and>
   (0 < query_param qLimit 50 \<longrightarrow>
      length (query qMinValue qLimit now c) \<le> nat (query_param qLimit 50) \<and>
      query qMinValue qLimit now c =
        take (nat (query_param qLimit 50))
          (map (project now)
             (array_sort (filter (\<lambda>i. js_ge (avalue (animalData i)) (Num (query_param qMinValue 3000000)))
                            (map_values c))))) \<and>
   (query_param qLimit 50 < 0 \<longrightarrow>
      query qMinValue qLimit now c =
        take (length (filter (\<lambda>i. js_ge (avalue (animalData i)) (Num (query_param qMinValue 3000000)))
                        (map_values c))
                - nat (- query_param qLimit 50))
          (map (project now)
             (array_sort (filter (\<lambda>i. js_ge (avalue (animalData i)) (Num (query_param qMinValue 3000000)))
                            (map_values c))))) \<and>
   query_param qLimit 50 \<noteq> 0 \<and>
   (\<forall>s n. qLimit = Some s \<and> parseInt s = Some n \<and> n \<noteq> 0 \<longrightarrow> query_param qLimit 50 = n) \<and>
   (\<forall>s n. qMinValue = Some s \<and> parseInt s = Some n \<and> n \<noteq> 0 \<longrightarrow> query_param qMinValue 3000000 = n) \<and>
   (\<forall>s n. qMinValue = Some s \<and> parseInt s = Some n \<longrightarrow>
      (\<forall>r \<in> set (query qMinValue qLimit now c). \<exists>v. ToNumber (res_value r) = Some v \<and> n \<le> v))"
proof -
  define m where "m = query_param qMinValue 3000000"
  define l where "l = query_param qLimit 50"
  define F where "F = filter (\<lambda>i. js_ge (avalue (animalData i)) (Num m)) (map_values c)"
  have q: "query qMinValue qLimit now c = map (project now) (instances m l c)"
    by (simp add: query_def m_def l_def)
  have inst: "instances m l c = slice0 l (array_sort F)"
    by (simp add: instances_def F_def)
  have 1: "\<forall>r \<in> set (query qMinValue qLimit now c). \<exists>v. ToNumber (res_value r) = Some v \<and> m \<le> v"
    using set_instances [of m l c] by (auto simp: q js_ge_Num project_def)
  have 2: "sorted_wrt (\<lambda>a b. number_ge (res_value a) (res_value b)) (query qMinValue qLimit now c)"
    using sorted_instances [of m l c] by (simp add: q sorted_wrt_map project_def)
  have 3: "0 < l \<longrightarrow> length (query qMinValue qLimit now c) \<le> nat l \<and>
      query qMinValue qLimit now c = take (nat l) (map (project now) (array_sort F))"
    by (simp add: q inst slice0_def take_map)
  have 4: "l < 0 \<longrightarrow> query qMinValue qLimit now c
      = take (length F - nat (- l)) (map (project now) (array_sort F))"
  proof
    assume "l < 0"
    then have "nat (int (length F) + l) = length F - nat (- l)" by linarith
    with \<open>l < 0\<close> show "query qMinValue qLimit now c
        = take (length F - nat (- l)) (map (project now) (array_sort F))"
      by (simp add: q inst slice0_def length_array_sort take_map)
  qed
  have 5: "l \<noteq> 0" unfolding l_def by (rule query_param_nonzero) simp
  have 6: "\<forall>s n. qLimit = Some s \<and> parseInt s = Some n \<and> n \<noteq> 0 \<longrightarrow> l = n"
    unfolding l_def by (auto simp: query_param_parsed)
  have 7: "\<forall>s n. qMinValue = Some s \<and> parseInt s = Some n \<and> n \<noteq> 0 \<longrightarrow> m = n"
    unfolding m_def by (auto simp: query_param_parsed)
  have 8: "\<forall>s n. qMinValue = Some s \<and> parseInt s = Some n \<longrightarrow>
      (\<forall>r \<in> set (query qMinValue qLimit now c). \<exists>v. ToNumber (res_value r) = Some v \<and> n \<le> v)"
  proof (intro allI impI)
    fix s n
    assume a: "qMinValue = Some s \<and> parseInt s = Some n"
    then have "n \<le> m"
      by (cases "n = 0") (simp_all add: m_def query_param_def)
    with 1 show "\<forall>r \<in> set (query qMinValue qLimit now c). \<exists>v. ToNumber (res_value r) = Some v \<and> n \<le> v"
      by fastforce
  qed
  from 1 2 3 4 5 6 7 8 show ?thesis
    unfolding F_def m_def l_def by (intro conjI)
qed

text \<open>
  C8 at three entries, with \<open>minValue=6000000\<close> and \<open>limit=1\<close>, with no parameters,
  and with \<open>limit=-1\<close>; the sort keeps entries of equal value in the order of the map.
\<close>

theorem query_filtered_sorted_truncated_witness:
  "parseInt ''6000000'' = Some 6000000 \<and> parseInt ''1'' = Some 1 \<and>
   query_param (Some ''1'') 50 = 1 \<and>
   map res_value (query (Some ''6000000'') (Some ''1'') 4000 (run three_reports)) = [Num 7000000] \<and>
   length (query (Some ''6000000'') (Some ''1'') 4000 (run three_reports)) \<le> nat 1 \<and>
   map res_gameInstanceId (query None None 4000 (run three_reports)) = [''I2'', ''I3'', ''I1''] \<and>
   sorted_wrt (\<lambda>a b. number_ge (res_value a) (res_value b)) (query None None 4000 (run three_reports)) \<and>
   query_param (Some ''-1'') 50 < 0 \<and>
   map res_gameInstanceId (query None (Some ''-1'') 4000 (run three_reports)) = [''I2'', ''I3'']"
proof -
  have p: "parseInt ''6000000'' = Some 6000000" "parseInt ''1'' = Some 1"
    by (simp_all add: parseInt_def StrWhiteSpaceChar_def radix_digit_def digit_value_def
        digits_value_def Let_def)
  have "map (avalue \<circ> animalData) (instances 6000000 1 (run three_reports)) = [Num 7000000]"
    by code_simp
  then have v: "map res_value (query (Some ''6000000'') (Some ''1'') 4000 (run three_reports)) = [Num 7000000]"
    by (simp add: query_def query_param_parsed p project_def comp_def)
  have o: "map res_gameInstanceId (query None None 4000 (run three_reports)) = [''I2'', ''I3'', ''I1'']"
    by code_simp
  have n: "query_param (Some ''-1'') 50 < 0"
    "map res_gameInstanceId (query None (Some ''-1'') 4000 (run three_reports)) = [''I2'', ''I3'']"
    by code_simp+
  note t = query_filtered_sorted_truncated [of "Some ''6000000''" "Some ''1''" 4000 "run three_reports"]
  have l1: "query_param (Some ''1'') 50 = 1"
    using t [THEN conjunct2, THEN conjunct2, THEN conjunct2, THEN conjunct2, THEN conjunct2,
        THEN conjunct1, THEN spec, THEN spec, of "''1''" 1] p(2)
    by simp
  have l: "length (query (Some ''6000000'') (Some ''1'') 4000 (run three_reports)) \<le> nat 1"
    using t [THEN conjunct2, THEN conjunct2, THEN conjunct1] l1 by simp
  have s: "sorted_wrt (\<lambda>a b. number_ge (res_value a) (res_value b)) (query None None 4000 (run three_reports))"
    by (rule query_filtered_sorted_truncated [of None None 4000 "run three_reports", THEN conjunct2, THEN conjunct1])
  from p v o l1 l s n show ?thesis by (intro conjI)
qed

text \<open>
  C8 as the specification states it fails at the limit 0: the query string \<open>limit=0\<close>
  is answered with all three stored entries, which is more than the limit.
\<close>

theorem zero_limit_counterexample:
  "parseInt ''0'' = Some 0 \<and>
   length (query None (Some ''0'') 4000 (run three_reports)) = 3 \<and>
   \<not> int (length (query None (Some ''0'') 4000 (run three_reports))) \<le> 0"
  by code_simp

subsection \<open>C9: a second report under the same identifiers\<close>

text \<open>
  C9. Two reports with the same two identifiers, each answered with "Instance stored
  successfully", the second sent after the first and after any operations in between:
  both answers carry the same key, and after the second report the map has exactly one
  entry under that key. Every field of it comes from the second call: the identifiers,
  the \<open>animalData\<close>, the \<open>timestamp\<close> and \<open>source\<close> of the second body (or their defaults
  at the second call), and the second reading of the clock as \<open>lastUpdated\<close>.
\<close>

theorem upsert_replaces:
  assumes "req_placeId b1 = Some pid" "req_gameInstanceId b1 = Some gid"
    and "req_placeId b2 = Some pid" "req_gameInstanceId b2 = Some gid"
    and "fst (report t1 b1 (run ops)) = Stored k1"
    and "fst (report t2 b2 (run (ops @ Report t1 b1 # ops'))) = Stored k2"
  shows "\<exists>a2 d. req_animalData b2 = Some a2 \<and> k1 = instance_key pid gid \<and> k2 = k1 \<and>
           length (filter (\<lambda>(key, d). key = k2)
                     (snd (report t2 b2 (run (ops @ Report t1 b1 # ops'))))) = 1 \<and>
           map_get (snd (report t2 b2 (run (ops @ Report t1 b1 # ops')))) k2 = Some d \<and>
           placeId d = pid \<and> gameInstanceId d = gid \<and>
           animalData d = a2 \<and>
           timestamp d = (case req_timestamp b2 of None \<Rightarrow> t2 div 1000
                          | Some ts \<Rightarrow> if ts = 0 then t2 div 1000 else ts) \<and>
           source d = (case req_source b2 of None \<Rightarrow> ''unknown''
                       | Some s \<Rightarrow> if s = [] then ''unknown'' else s) \<and>
           lastUpdated d = t2"
proof -
  define c where "c = run (ops @ Report t1 b1 # ops')"
  have k1: "k1 = instance_key pid gid"
    using assms(1,2,5)
    by (cases b1 rule: report_cases) (auto simp: report_missing report_low report_stored)
  from assms(3,4,6) obtain a2 where a2: "req_animalData b2 = Some a2"
    and r: "report t2 b2 c = (Stored (instance_key pid gid),
              evict (map_set (instance_key pid gid) (make_instance t2 pid gid a2 b2) c))"
    unfolding c_def [symmetric]
    by (cases b2 rule: report_cases) (auto simp: report_missing report_low report_stored)
  have k2: "k2 = instance_key pid gid"
    using assms(6) r by (simp add: c_def)
  have wf: "wf_cache c" unfolding c_def by (rule wf_run)
  have get: "map_get (snd (report t2 b2 c)) k2 = Some (make_instance t2 pid gid a2 b2)"
    by (simp add: r k2 map_get_evict_map_set [OF wf])
  have "distinct (map fst (snd (report t2 b2 c)))"
    using wf_report [OF wf, of t2 b2] by (simp add: wf_cache_def)
  then have one: "length (filter (\<lambda>(key, d). key = k2) (snd (report t2 b2 c))) = 1"
    using get by (rule count_key)
  from a2 k1 k2 one get make_instance_fields [of t2 pid gid a2 b2] show ?thesis
    unfolding c_def by blast
qed

text \<open>C9 at the example report, a report under another key, and a second report.\<close>

theorem upsert_replaces_witness:
  "fst (report 1000 dog_report (run [])) = Stored ''P1_I1'' \<and>
   fst (report 3000 (cat_report\<lparr>req_gameInstanceId := Some ''I1''\<rparr>)
          (run ([] @ Report 1000 dog_report # [Report 2000 fox_report]))) = Stored ''P1_I1'' \<and>
   length (filter (\<lambda>(key, d). key = ''P1_I1'')
                (snd (report 3000 (cat_report\<lparr>req_gameInstanceId := Some ''I1''\<rparr>)
                        (run ([] @ Report 1000 dog_report # [Report 2000 fox_report]))))) = 1 \<and>
   map_get (snd (report 3000 (cat_report\<lparr>req_gameInstanceId := Some ''I1''\<rparr>)
                       (run ([] @ Report 1000 dog_report # [Report 2000 fox_report])))) ''P1_I1''
     = Some \<lparr> placeId = ''P1'', gameInstanceId = ''I1'',
              animalData = dog\<lparr>displayName := Some ''Cat'', avalue := Num 7000000\<rparr>,
              timestamp = 5, source = ''script'', lastUpdated = 3000 \<rparr>"
proof -
  have p1: "req_placeId dog_report = Some ''P1''" and g1: "req_gameInstanceId dog_report = Some ''I1''"
    by (simp_all add: dog_report_def)
  have p2: "req_placeId (cat_report\<lparr>req_gameInstanceId := Some ''I1''\<rparr>) = Some ''P1''"
    and g2: "req_gameInstanceId (cat_report\<lparr>req_gameInstanceId := Some ''I1''\<rparr>) = Some ''I1''"
    by (simp_all add: cat_report_def)
  have s1: "fst (report 1000 dog_report (run [])) = Stored ''P1_I1''"
    by code_simp
  have s2: "fst (report 3000 (cat_report\<lparr>req_gameInstanceId := Some ''I1''\<rparr>)
          (run ([] @ Report 1000 dog_report # [Report 2000 fox_report]))) = Stored ''P1_I1''"
    by code_simp
  have e: "map_get (snd (report 3000 (cat_report\<lparr>req_gameInstanceId := Some ''I1''\<rparr>)
                       (run ([] @ Report 1000 dog_report # [Report 2000 fox_report])))) ''P1_I1''
     = Some \<lparr> placeId = ''P1'', gameInstanceId = ''I1'',
              animalData = dog\<lparr>displayName := Some ''Cat'', avalue := Num 7000000\<rparr>,
              timestamp = 5, source = ''script'', lastUpdated = 3000 \<rparr>"
    by code_simp
  from upsert_replaces [OF p1 g1 p2 g2 s1 s2] s1 s2 e
  show ?thesis by blast
qed

subsection \<open>C10: query parameters that are falsy after parsing\<close>

text \<open>
  C10. A query parameter that \<open>parseInt\<close> reads as NaN or as 0 is replaced by the default:
  the handler answers as if the parameter had been omitted, with the minimum value
  3000000 or the limit 50. So \<open>minValue=0\<close> is the same request as no \<open>minValue\<close>.
\<close>

theorem falsy_parameter_defaults:
  "(parseInt s = None \<or> parseInt s = Some 0 \<longrightarrow>
      query_param (Some s) d = d \<and>
      query (Some s) qLimit now c = query None qLimit now c \<and>
      query (Some s) qLimit now c
        = map (project now) (instances 3000000 (query_param qLimit 50) c) \<and>
      query qMinValue (Some s) now c = query qMinValue None now c \<and>
      query qMinValue (Some s) now c
        = map (project now) (instances (query_param qMinValue 3000000) 50 c)) \<and>
   query (Some ''0'') qLimit now c = query None qLimit now c"
proof -
  have zero: "parseInt ''0'' = Some 0" by code_simp
  show ?thesis
    using query_param_falsy [of "''0''"] zero
    by (auto simp: query_def query_param_None query_param_falsy)
qed

text \<open>C10 at \<open>minValue=0\<close> and at \<open>limit=abc\<close>.\<close>

theorem falsy_parameter_defaults_witness:
  "parseInt ''0'' = Some 0 \<and> parseInt ''abc'' = None \<and>
   query (Some ''0'') None 4000 (run [Report 1000 dog_report])
     = query None None 4000 (run [Report 1000 dog_report]) \<and>
   query_param (Some ''abc'') 50 = 50 \<and>
   query None (Some ''abc'') 4000 (run [Report 1000 dog_report])
     = map (project 4000) (instances (query_param None 3000000) 50 (run [Report 1000 dog_report]))"
proof -
  have zero: "parseInt ''0'' = Some 0" and abc: "parseInt ''abc'' = None"
    by code_simp+
  from falsy_parameter_defaults [of "''0''" 3000000 None 4000 "run [Report 1000 dog_report]" None]
    falsy_parameter_defaults [of "''abc''" 50 None 4000 "run [Report 1000 dog_report]" None]
    zero abc
  show ?thesis by (simp add: query_param_None)
qed

end
